theory Spec2Isabelle
  imports Complex_Main "HOL-Library.Sublist"
begin

section \<open>LocalAgent: the orchestration loop of src/lib/agent/LocalAgent.ts\<close>

text \<open>
  The class \<^verbatim>\<open>LocalAgent\<close> drives a language model that picks tools from a registry.
  Its private methods are embedded under their source names without the leading
  underscore (\<^verbatim>\<open>_processToolCalls\<close> is \<open>processToolCalls\<close>, and so on). The fields
  the class mutates and the effects it has on its collaborators (published messages,
  metrics, handler invocations, model invocations) are the record \<open>agent_state\<close>, passed
  explicitly (\<open>toolInvocations\<close> logs each handler call with the tick at which it
  started). What the class only consumes (tool registry, model, token counter, clock,
  cancellation signal, human-input channel) is the record \<open>env\<close>. A thrown exception is
  a value \<open>Inl e\<close> of the sum type.
\<close>

subsection \<open>Values exchanged with the collaborators\<close>

text \<open>
  Tool arguments are JSON values (\<^verbatim>\<open>args: any\<close> in the source). The agent never
  computes with an argument, it stores it and prints it. A number is held as the text
  that \<^verbatim>\<open>Number.prototype.toString\<close> gives for it (\<^verbatim>\<open>12\<close>, \<^verbatim>\<open>2.5\<close>, \<^verbatim>\<open>1e+21\<close>). An
  object is held as its properties in the order in which they were created; a later
  pair with a key that is already there assigns to that property. Strings are the bytes
  of their UTF-8 encoding.
\<close>

datatype json =
    JNull
  | JBool bool
  | JNum string
  | JStr string
  | JArr "json list"
  | JObj "(string \<times> json) list"

text \<open>The two exception classes the agent distinguishes: \<^verbatim>\<open>AbortError\<close> (with its
  optional message) and any other \<^verbatim>\<open>Error\<close>.\<close>

datatype error = AbortError "string option" | Error string

text \<open>What calling a tool's \<^verbatim>\<open>func\<close> does: it resolves to a string or it throws; the
  string of \<open>Throws\<close> is what the catch clause reads from the thrown value
  (\<^verbatim>\<open>error.message\<close> of an \<^verbatim>\<open>Error\<close>, \<^verbatim>\<open>String(error)\<close> otherwise).\<close>

datatype tool_outcome = Returns string | Throws string

text \<open>One element of \<^verbatim>\<open>llmResponse.tool_calls\<close>.\<close>

record tool_call =
  name :: string
  call_args :: json
  call_id :: string

text \<open>Of the object \<^verbatim>\<open>jsonParseToolOutput\<close> returns, the loop reads two properties,
  each in a boolean test; the record keeps the truth value of each test.\<close>

record parsed_output =
  parsed_ok :: bool
  parsed_requiresHumanInput :: bool

record UnifiedResult =
  doneToolCalled :: bool
  requiresHumanInput :: bool

record SimpleExecutionEntry =
  iteration :: int
  tool :: "string option"
  args :: "json option"
  result :: "string option"
  summary :: "string option"
  timestamp :: nat

datatype message_type = Thinking | Assistant | ErrorMessage

text \<open>A message handed to \<^verbatim>\<open>pubsub.publishMessage\<close>: \<open>msgId\<close> is \<open>Some i\<close> for
  \<^verbatim>\<open>PubSub.createMessageWithId(i, ...)\<close> and \<open>None\<close> for \<^verbatim>\<open>PubSub.createMessage\<close>.\<close>

datatype message = Message (msgId: "string option") (content: string) (msgType: message_type)

datatype chunk_content = TextContent string | ComplexContent

record AIMessageChunk =
  chunk_content :: chunk_content
  chunk_tool_calls :: "tool_call list"

text \<open>What a call of the model's \<^verbatim>\<open>stream\<close> does: it yields chunks and ends, or it yields
  chunks and then throws (with no chunks when the call itself throws).\<close>

datatype stream_outcome = StreamFails "AIMessageChunk list" error | Stream "AIMessageChunk list"

datatype hi_action = ActionDone | ActionAbort

text \<open>The two execution modes of \<^verbatim>\<open>execute\<close>; they differ in the prompts they build and
  in the loop that drives them.\<close>

datatype mode = Dynamic | Predefined

record AIMessage =
  msg_content :: chunk_content
  tool_calls :: "tool_call list"

datatype hi_outcome = HiDone | HiAbort | HiTimeout

record HumanInputResponse =
  requestId :: string
  action :: hi_action

subsection \<open>The collaborators and the agent's state\<close>

text \<open>
  \<open>tick\<close> counts the points at which the agent has waited for a collaborator (a tool
  call, the start of the glow animation, a chunk of the model's stream, a sleep of the
  human-input poll, a summarisation call); whatever the outside world does is read as a
  function of it. The cancellation
  signal of \<^verbatim>\<open>executionContext.abortSignal\<close> is set from tick \<open>abortAt\<close> on and stays set.

  \<^item> \<open>toolManager_get\<close>: \<^verbatim>\<open>toolManager.get(name)\<close>, the handler as a function of the tick
    and the arguments (the function actually called: \<^verbatim>\<open>tool.func\<close>, or its metrics
    wrapper when \<^verbatim>\<open>ENABLE_EVALS2\<close> is on);
  \<^item> \<open>jsonParseToolOutput\<close>: the helper of \<^verbatim>\<open>@/lib/utils/utils\<close>;
  \<^item> \<open>llm_stream n\<close>: what \<^verbatim>\<open>unifiedLlmWithTools.stream\<close> does at its n-th call (whatever
    throws between the history context and the first chunk, the browser-state snapshot
    included, counts as a failure of this call);
  \<^item> \<open>chunk_concat\<close>: \<^verbatim>\<open>AIMessageChunk.concat\<close> of the model library;
  \<^item> \<open>generateId\<close>: \<^verbatim>\<open>PubSub.generateId("msg_assistant")\<close>;
  \<^item> \<open>countTokens\<close>: \<^verbatim>\<open>TokenCounter.countMessage(new HumanMessage(text))\<close>;
  \<^item> \<open>getMaxTokens\<close>, \<open>systemPromptTokens\<close>: the model's window and the token count of the
    mode's system prompt;
  \<^item> \<open>summarizer_llm\<close>: the summarisation model behind \<^verbatim>\<open>getLLM\<close> and \<^verbatim>\<open>invokeWithRetry\<close>,
    as a function of the tick, the token budget, the task and the history text; it throws
    or gives the \<^verbatim>\<open>content\<close> of its result, if any;
  \<^item> \<open>humanInputRequestId\<close>, \<open>humanInputEvents\<close>: the request id the execution context
    holds, and the \<^verbatim>\<open>human-input-response\<close> events delivered before a tick;
  \<^item> \<open>sleepDuration\<close>: the milliseconds a \<^verbatim>\<open>setTimeout\<close> sleep really took;
  \<^item> \<open>dateNow\<close>: \<^verbatim>\<open>Date.now()\<close>.
\<close>

record env =
  toolManager_get :: "string \<Rightarrow> (nat \<Rightarrow> json \<Rightarrow> tool_outcome) option"
  jsonParseToolOutput :: "string \<Rightarrow> parsed_output"
  isDevelopmentMode :: bool
  dateNow :: "nat \<Rightarrow> nat"
  abortAt :: "nat option"
  llm_stream :: "nat \<Rightarrow> stream_outcome"
  chunk_concat :: "AIMessageChunk \<Rightarrow> AIMessageChunk \<Rightarrow> AIMessageChunk"
  generateId :: "nat \<Rightarrow> string"
  countTokens :: "string \<Rightarrow> nat"
  getMaxTokens :: int
  systemPromptTokens :: "mode \<Rightarrow> int"
  summarizer_llm :: "nat \<Rightarrow> int \<Rightarrow> string \<Rightarrow> string \<Rightarrow> error + string option"
  humanInputRequestId :: "nat \<Rightarrow> string option"
  humanInputEvents :: "nat \<Rightarrow> HumanInputResponse list"
  sleepDuration :: "nat \<Rightarrow> nat"

record agent_state =
  iterations :: int
  consecutiveNoToolCalls :: int
  executionHistory :: "SimpleExecutionEntry list"
  humanInputResponse :: "HumanInputResponse option"
  published :: "message list"
  errors :: nat
  observations :: nat
  toolInvocations :: "(nat \<times> string \<times> json) list"
  llmInvocations :: nat
  llmReminders :: "string list list"
  tick :: nat

definition MAX_UNIFIED_ITERATIONS :: int where
  "MAX_UNIFIED_ITERATIONS = 30"

definition MAX_RETRIES :: int where
  "MAX_RETRIES = 3"

definition HUMAN_INPUT_TIMEOUT :: nat where
  "HUMAN_INPUT_TIMEOUT = 600000"

definition HUMAN_INPUT_CHECK_INTERVAL :: nat where
  "HUMAN_INPUT_CHECK_INTERVAL = 500"

subsection \<open>Strings: numbers, joining, JSON.stringify\<close>

definition digit_char :: "nat \<Rightarrow> char" where
  "digit_char n = ''0123456789abcdef'' ! (n mod 16)"

text \<open>The decimal text of an integer, as a template literal prints it (the counters the
  agent prints stay far below \<open>10\<^sup>2\<^sup>1\<close>, where the exponent form begins).\<close>

function decimal_digits :: "nat \<Rightarrow> string" where
  "decimal_digits n =
     (if n div 10 = 0 then [] else decimal_digits (n div 10)) @ [digit_char (n mod 10)]"
  by pat_completeness auto
termination
  by (relation "measure id") auto

declare decimal_digits.simps [simp del]

definition number_toString :: "int \<Rightarrow> string" where
  "number_toString i =
     (if 0 \<le> i then decimal_digits (nat i) else CHR ''-'' # decimal_digits (nat (- i)))"

text \<open>\<^verbatim>\<open>Array.prototype.join\<close>.\<close>

fun join :: "string \<Rightarrow> string list \<Rightarrow> string" where
  "join sep [] = []"
| "join sep [x] = x"
| "join sep (x # y # ys) = x @ sep @ join sep (y # ys)"

text \<open>The escapes of \<^verbatim>\<open>JSON.stringify\<close> on a string: quote, backslash, the short escapes
  and \<^verbatim>\<open>\u00XX\<close> for the other control characters.\<close>

definition json_escape_char :: "char \<Rightarrow> string" where
  "json_escape_char c =
     (if c = CHR 0x22 then [CHR 0x5C, CHR 0x22]
      else if c = CHR 0x5C then [CHR 0x5C, CHR 0x5C]
      else if c = CHR 0x08 then [CHR 0x5C, CHR ''b'']
      else if c = CHR 0x0C then [CHR 0x5C, CHR ''f'']
      else if c = CHR 0x0A then [CHR 0x5C, CHR ''n'']
      else if c = CHR 0x0D then [CHR 0x5C, CHR ''r'']
      else if c = CHR 0x09 then [CHR 0x5C, CHR ''t'']
      else if of_char c < (32::nat)
        then [CHR 0x5C, CHR ''u'', CHR ''0'', CHR ''0'',
              digit_char (of_char c div 16), digit_char (of_char c mod 16)]
      else [c])"

definition json_quote :: "string \<Rightarrow> string" where
  "json_quote s = [CHR 0x22] @ concat (map json_escape_char s) @ [CHR 0x22]"

text \<open>
  The order in which \<^verbatim>\<open>JSON.stringify\<close> visits the properties of an object: the keys
  that are array indices (the decimal text, without leading zeros, of an integer up to
  \<open>2\<^sup>3\<^sup>2 - 2\<close>) in ascending order, then the other keys in the order of their creation.
\<close>

definition array_index :: "string \<Rightarrow> int option" where
  "array_index k =
     (let n = foldl (\<lambda>a c. 10 * a + (of_char c - 48)) (0::int) k
      in if k \<noteq> [] \<and> list_all (\<lambda>c. (48::nat) \<le> of_char c \<and> of_char c \<le> (57::nat)) k
            \<and> (k = ''0'' \<or> hd k \<noteq> CHR ''0'') \<and> n \<le> 4294967294
         then Some n else None)"

fun put_property :: "string \<Rightarrow> 'a \<Rightarrow> (string \<times> 'a) list \<Rightarrow> (string \<times> 'a) list" where
  "put_property k v [] = [(k, v)]"
| "put_property k v (p # ps) = (if fst p = k then (k, v) # ps else p # put_property k v ps)"

definition own_properties :: "(string \<times> 'a) list \<Rightarrow> (string \<times> 'a) list" where
  "own_properties kvs =
     (let ps = foldl (\<lambda>acc kv. put_property (fst kv) (snd kv) acc) [] kvs
      in sort_key (\<lambda>p. case array_index (fst p) of Some n \<Rightarrow> n | None \<Rightarrow> 0)
           (filter (\<lambda>p. array_index (fst p) \<noteq> None) ps)
         @ filter (\<lambda>p. array_index (fst p) = None) ps)"

text \<open>\<^verbatim>\<open>JSON.stringify\<close> without indentation; the three numbers that are not finite print
  as \<^verbatim>\<open>null\<close>.\<close>

fun JSON_stringify :: "json \<Rightarrow> string" where
  "JSON_stringify JNull = ''null''"
| "JSON_stringify (JBool b) = (if b then ''true'' else ''false'')"
| "JSON_stringify (JNum t) =
     (if t \<in> set [''NaN'', ''Infinity'', ''-Infinity''] then ''null'' else t)"
| "JSON_stringify (JStr s) = json_quote s"
| "JSON_stringify (JArr xs) = ''['' @ join '','' (map JSON_stringify xs) @ '']''"
| "JSON_stringify (JObj kvs) =
     ''{'' @ join '',''
               (map (\<lambda>p. json_quote (fst p) @ '':'' @ snd p)
                  (own_properties (map (\<lambda>kv. (fst kv, JSON_stringify (snd kv))) kvs))) @ ''}''"

text \<open>\<^verbatim>\<open>JSON.stringify({ ok: false, error: errorMsg })\<close>.\<close>

definition error_result :: "string \<Rightarrow> string" where
  "error_result errorMsg = JSON_stringify (JObj [(''ok'', JBool False), (''error'', JStr errorMsg)])"

subsection \<open>Cancellation, publishing, debug output\<close>

definition aborted :: "env \<Rightarrow> agent_state \<Rightarrow> bool" where
  "aborted e s = (case abortAt e of None \<Rightarrow> False | Some t \<Rightarrow> t \<le> tick s)"

text \<open>\<^verbatim>\<open>checkIfAborted\<close> throws \<^verbatim>\<open>new AbortError()\<close> when the signal is set.\<close>

definition checkIfAborted :: "env \<Rightarrow> agent_state \<Rightarrow> error option" where
  "checkIfAborted e s = (if aborted e s then Some (AbortError None) else None)"

definition publish :: "message \<Rightarrow> agent_state \<Rightarrow> agent_state" where
  "publish m s = s\<lparr>published := published s @ [m]\<rparr>"

definition publishMessage :: "string \<Rightarrow> message_type \<Rightarrow> agent_state \<Rightarrow> agent_state" where
  "publishMessage c ty s = publish (Message None c ty) s"

text \<open>
  \<^verbatim>\<open>details.length\<close> and \<^verbatim>\<open>details.substring(0, maxLength)\<close> count UTF-16 code units: a
  character of one to three bytes in UTF-8 is one unit, a character of four bytes is two
  (a surrogate pair). When the cut falls between the two, what is kept of the character
  is its high surrogate, written here as the three bytes that encode its code point.
\<close>

definition utf8_width :: "char \<Rightarrow> nat" where
  "utf8_width c =
     (if of_char c < (0x80::nat) then 1
      else if of_char c < (0xE0::nat) then 2
      else if of_char c < (0xF0::nat) then 3
      else 4)"

function utf16_length :: "string \<Rightarrow> nat" where
  "utf16_length t =
     (if t = [] then 0
      else (if utf8_width (hd t) = 4 then 2 else 1) + utf16_length (drop (utf8_width (hd t)) t))"
  by pat_completeness auto
termination
  by (relation "measure length") (auto simp: utf8_width_def)

declare utf16_length.simps [simp del]

definition high_surrogate :: "string \<Rightarrow> string" where
  "high_surrogate bs =
     (let b = (\<lambda>i. if i < length bs then (of_char (bs ! i) :: nat) else 0);
          cp = (b 0 mod 8) * 262144 + (b 1 mod 64) * 4096 + (b 2 mod 64) * 64 + b 3 mod 64;
          hs = 55296 + (cp - 65536) div 1024
      in [CHR 0xED, char_of (128 + (hs div 64) mod 64), char_of (128 + hs mod 64)])"

function utf16_take :: "nat \<Rightarrow> string \<Rightarrow> string" where
  "utf16_take n t =
     (if n = 0 \<or> t = [] then []
      else if utf8_width (hd t) < 4 then
        take (utf8_width (hd t)) t @ utf16_take (n - 1) (drop (utf8_width (hd t)) t)
      else if n = 1 then high_surrogate (take 4 t)
      else take 4 t @ utf16_take (n - 2) (drop 4 t))"
  by pat_completeness auto
termination
  by (relation "measure (\<lambda>(n, t). length t)") (auto simp: utf8_width_def)

declare utf16_take.simps [simp del]

text \<open>\<^verbatim>\<open>_emitDevModeDebug(action, details)\<close> with the default \<^verbatim>\<open>maxLength\<close> of 60; an empty
  \<^verbatim>\<open>details\<close> is falsy.\<close>

definition emitDevModeDebug :: "env \<Rightarrow> string \<Rightarrow> string \<Rightarrow> agent_state \<Rightarrow> agent_state" where
  "emitDevModeDebug e act details s =
     (if isDevelopmentMode e then
        (let msg = (if details \<noteq> [] then
                      act @ '': '' @ (if utf16_length details > 60
                                      then utf16_take 60 details @ ''...''
                                      else details)
                    else act)
         in publishMessage (''[DEV MODE] '' @ msg) Thinking s)
      else s)"

subsection \<open>Dispatching a batch of tool calls\<close>

definition GLOW_ENABLED_TOOLS :: "string list" where
  "GLOW_ENABLED_TOOLS =
     [''click'', ''type'', ''clear'', ''moondream_visual_click'', ''moondream_visual_type'',
      ''scroll'', ''navigate'', ''key'', ''tab_open'', ''tab_focus'', ''tab_close'', ''extract'']"

text \<open>
  \<^verbatim>\<open>_maybeStartGlowAnimation\<close>: for the tools of the set it asks the browser for the
  current page and starts the animation. The animation is visual only and the method
  swallows its own failures; what it does to the run is that the agent waits: one tick.
\<close>

definition maybeStartGlowAnimation :: "string \<Rightarrow> agent_state \<Rightarrow> agent_state" where
  "maybeStartGlowAnimation toolName s =
     (if toolName \<in> set GLOW_ENABLED_TOOLS then s\<lparr>tick := tick s + 1\<rparr> else s)"

text \<open>
  The body of the \<^verbatim>\<open>for\<close> loop of \<^verbatim>\<open>_processToolCalls\<close> from the registry lookup to
  the history push: look the tool up, call it, turn an unknown name or a thrown
  exception into the JSON text of \<^verbatim>\<open>{ok: false, error}\<close>. The call to the handler is
  one tick.
\<close>

definition dispatch :: "env \<Rightarrow> string \<Rightarrow> json \<Rightarrow> agent_state \<Rightarrow> string \<times> agent_state" where
  "dispatch e toolName a s =
     (case toolManager_get e toolName of
        None \<Rightarrow>
          (let errorMsg = ''Unknown tool: '' @ toolName
           in (error_result errorMsg, emitDevModeDebug e ''Error'' errorMsg s))
      | Some func \<Rightarrow>
          (let s1 = s\<lparr>toolInvocations := toolInvocations s @ [(tick s, toolName, a)], tick := tick s + 1\<rparr>
           in case func (tick s) a of
                Returns toolResult \<Rightarrow> (toolResult, s1)
              | Throws m \<Rightarrow>
                  (let errorMsg = ''Tool execution failed: '' @ m
                   in (error_result errorMsg,
                       emitDevModeDebug e (''Error executing '' @ toolName) errorMsg
                         (s1\<lparr>errors := errors s1 + 1\<rparr>)))))"

text \<open>The rest of the loop body: parse the result, push the history entry, set the
  flags.\<close>

definition record_call :: "env \<Rightarrow> tool_call \<Rightarrow> string \<Rightarrow> agent_state \<Rightarrow> SimpleExecutionEntry" where
  "record_call e toolCall toolResult s =
     \<lparr>iteration = iterations s, tool = Some (name toolCall), args = Some (call_args toolCall),
      result = Some toolResult, summary = None, timestamp = dateNow e (tick s)\<rparr>"

definition update_flags :: "env \<Rightarrow> tool_call \<Rightarrow> string \<Rightarrow> UnifiedResult \<Rightarrow> UnifiedResult" where
  "update_flags e toolCall toolResult r =
     (let parsedResult = jsonParseToolOutput e toolResult;
          r1 = (if name toolCall = ''done'' \<and> parsed_ok parsedResult
                then r\<lparr>doneToolCalled := True\<rparr> else r)
      in if name toolCall = ''human_input'' \<and> parsed_ok parsedResult
            \<and> parsed_requiresHumanInput parsedResult
         then r1\<lparr>requiresHumanInput := True\<rparr> else r1)"

fun processToolCalls_loop ::
  "env \<Rightarrow> tool_call list \<Rightarrow> UnifiedResult \<Rightarrow> agent_state \<Rightarrow> (error + UnifiedResult) \<times> agent_state"
where
  "processToolCalls_loop e [] r s = (Inr r, s)"
| "processToolCalls_loop e (toolCall # rest) r s =
     (case checkIfAborted e s of
        Some err \<Rightarrow> (Inl err, s)
      | None \<Rightarrow>
          (let s0 = emitDevModeDebug e (''Calling tool '' @ name toolCall @ '' with args'')
                      (JSON_stringify (call_args toolCall)) s;
               s1 = maybeStartGlowAnimation (name toolCall) s0;
               (toolResult, s2) = dispatch e (name toolCall) (call_args toolCall) s1;
               s3 = s2\<lparr>executionHistory :=
                         executionHistory s2 @ [record_call e toolCall toolResult s2]\<rparr>
           in processToolCalls_loop e rest (update_flags e toolCall toolResult r) s3))"

definition processToolCalls ::
  "env \<Rightarrow> tool_call list \<Rightarrow> agent_state \<Rightarrow> (error + UnifiedResult) \<times> agent_state"
where
  "processToolCalls e toolCalls s =
     processToolCalls_loop e toolCalls \<lparr>doneToolCalled = False, requiresHumanInput = False\<rparr> s"


subsection \<open>The execution history as context\<close>

text \<open>One entry as text. \<^verbatim>\<open>if (entry.summary)\<close> holds for a summary that is present and
  not empty; a property that is absent prints as \<^verbatim>\<open>undefined\<close>.\<close>

definition render_call :: "SimpleExecutionEntry \<Rightarrow> string" where
  "render_call en =
     ''Iteration '' @ number_toString (iteration en) @ '': Tool Call: ''
       @ (case tool en of Some t \<Rightarrow> t | None \<Rightarrow> ''undefined'')
       @ ''('' @ (case args en of Some a \<Rightarrow> JSON_stringify a | None \<Rightarrow> ''undefined'')
       @ '') Tool Result: '' @ (case result en of Some x \<Rightarrow> x | None \<Rightarrow> ''undefined'')"

definition render_entry :: "SimpleExecutionEntry \<Rightarrow> string" where
  "render_entry en =
     (case summary en of
        Some sm \<Rightarrow>
          (if sm \<noteq> [] then
             ''=== ITERATIONS 1-'' @ number_toString (iteration en) @ '' SUMMARY ==='' @ [CHR 0x0A] @ sm
           else render_call en)
      | None \<Rightarrow> render_call en)"

definition render_history :: "SimpleExecutionEntry list \<Rightarrow> string" where
  "render_history entries = join [CHR 0x0A, CHR 0x0A] (map render_entry entries)"

text \<open>\<^verbatim>\<open>executionHistory.slice(-5)\<close>.\<close>

definition slice_last :: "nat \<Rightarrow> 'a list \<Rightarrow> 'a list" where
  "slice_last n xs = drop (length xs - n) xs"

text \<open>
  \<^verbatim>\<open>_summarizeExecutionHistory\<close>: the budget is raised to 100 and rounded down, the
  summarisation model is asked (one tick), and an absent or empty \<^verbatim>\<open>content\<close> gives the
  empty string. The two prompts are fixed templates around the budget, the task and the
  history text, which is what the model is given here.
\<close>

definition summarizeExecutionHistory ::
  "env \<Rightarrow> string \<Rightarrow> string \<Rightarrow> real \<Rightarrow> agent_state \<Rightarrow> (error + string) \<times> agent_state"
where
  "summarizeExecutionHistory e history userTask tokenLimit s =
     (let tokenLimit1 = (if tokenLimit < 100 then 100 else tokenLimit);
          tokenLimit2 = \<lfloor>tokenLimit1\<rfloor>;
          s1 = s\<lparr>tick := tick s + 1\<rparr>
      in case summarizer_llm e (tick s) tokenLimit2 userTask history of
           Inl err \<Rightarrow> (Inl err, s1)
         | Inr c \<Rightarrow> (Inr (case c of Some x \<Rightarrow> x | None \<Rightarrow> []), s1))"

definition summary_entry :: "env \<Rightarrow> string \<Rightarrow> agent_state \<Rightarrow> SimpleExecutionEntry" where
  "summary_entry e sm s =
     \<lparr>iteration = iterations s - 1, tool = None, args = None, result = None,
      summary = Some sm, timestamp = dateNow e (tick s)\<rparr>"

definition buildExecutionHistoryContext ::
  "env \<Rightarrow> real \<Rightarrow> string \<Rightarrow> agent_state \<Rightarrow> string \<times> agent_state"
where
  "buildExecutionHistoryContext e tokenLimit userTask s =
     (if executionHistory s = [] then (''No previous actions attempted'', s)
      else
        (let fullHistory = render_history (executionHistory s);
             fullHistoryTokens = countTokens e fullHistory
         in if real fullHistoryTokens > tokenLimit then
              (case summarizeExecutionHistory e fullHistory userTask tokenLimit s of
                 (Inr sm, s1) \<Rightarrow>
                   (sm, s1\<lparr>executionHistory := [] @ [summary_entry e sm s1]\<rparr>)
               | (Inl err, s1) \<Rightarrow>
                   (render_history (slice_last 5 (executionHistory s1)), s1))
            else (fullHistory, s)))"

subsection \<open>The streaming filter\<close>

definition PROHIBITED_TAGS :: "string list" where
  "PROHIBITED_TAGS =
     [''<browser-state>'', ''<system-reminder>'', ''</browser-state>'', ''</system-reminder>'']"

definition SYSTEM_REMINDER :: string where
  "SYSTEM_REMINDER =
     ''I will never output <browser-state> or <system-reminder> tags or their contents. These are for my internal reference only. If I have completed all actions, I will complete the task and call '' @ [CHR 0x27] @ ''done'' @ [CHR 0x27] @ '' tool.''"

text \<open>\<^verbatim>\<open>String.prototype.includes\<close>.\<close>

fun includes_str :: "string \<Rightarrow> string \<Rightarrow> bool" where
  "includes_str [] t = (t = [])"
| "includes_str (c # cs) t = (prefix t (c # cs) \<or> includes_str cs t)"

text \<open>
  \<^verbatim>\<open>accumulatedText.trim()\<close> is truthy when some character of the text is not white
  space. \<open>WHITE_SPACE\<close> lists the white space and the line terminators of ECMAScript by
  the bytes of their UTF-8 encoding: U+0009 to U+000D, U+0020, U+00A0, U+1680, U+2000 to
  U+200A, U+2028, U+2029, U+202F, U+205F, U+3000 and U+FEFF.
\<close>

definition WHITE_SPACE :: "string list" where
  "WHITE_SPACE =
     [[CHR 0x09], [CHR 0x0A], [CHR 0x0B], [CHR 0x0C], [CHR 0x0D], [CHR 0x20],
      [CHR 0xC2, CHR 0xA0], [CHR 0xE1, CHR 0x9A, CHR 0x80],
      [CHR 0xE2, CHR 0x80, CHR 0x80], [CHR 0xE2, CHR 0x80, CHR 0x81],
      [CHR 0xE2, CHR 0x80, CHR 0x82], [CHR 0xE2, CHR 0x80, CHR 0x83],
      [CHR 0xE2, CHR 0x80, CHR 0x84], [CHR 0xE2, CHR 0x80, CHR 0x85],
      [CHR 0xE2, CHR 0x80, CHR 0x86], [CHR 0xE2, CHR 0x80, CHR 0x87],
      [CHR 0xE2, CHR 0x80, CHR 0x88], [CHR 0xE2, CHR 0x80, CHR 0x89],
      [CHR 0xE2, CHR 0x80, CHR 0x8A], [CHR 0xE2, CHR 0x80, CHR 0xA8],
      [CHR 0xE2, CHR 0x80, CHR 0xA9], [CHR 0xE2, CHR 0x80, CHR 0xAF],
      [CHR 0xE2, CHR 0x81, CHR 0x9F], [CHR 0xE3, CHR 0x80, CHR 0x80],
      [CHR 0xEF, CHR 0xBB, CHR 0xBF]]"

text \<open>The number of bytes of the white-space character a text begins with; 0 when it
  begins with none.\<close>

definition white_space_length :: "string \<Rightarrow> nat" where
  "white_space_length t =
     (case find (\<lambda>w. prefix w t) WHITE_SPACE of Some w \<Rightarrow> length w | None \<Rightarrow> 0)"

function all_white_space :: "string \<Rightarrow> bool" where
  "all_white_space t =
     (if t = [] then True
      else if white_space_length t = 0 then False
      else all_white_space (drop (white_space_length t) t))"
  by pat_completeness auto
termination
  by (relation "measure length") auto

declare all_white_space.simps [simp del]

definition trim_nonempty :: "string \<Rightarrow> bool" where
  "trim_nonempty t = (\<not> all_white_space t)"

text \<open>What the loop has in \<^verbatim>\<open>accumulatedChunk\<close> after the chunks \<open>cs\<close>.\<close>

definition aggregate :: "env \<Rightarrow> AIMessageChunk option \<Rightarrow> AIMessageChunk list \<Rightarrow> AIMessageChunk option" where
  "aggregate e a0 cs =
     foldl (\<lambda>acc c. Some (case acc of None \<Rightarrow> c | Some a \<Rightarrow> chunk_concat e a c)) a0 cs"

text \<open>The local variables of \<^verbatim>\<open>_invokeLLMWithStreaming\<close>, with the reminders queued on
  the message manager it was given.\<close>

record stream_locals =
  accumulatedChunk :: "AIMessageChunk option"
  accumulatedText :: string
  hasStartedThinking :: bool
  currentMsgId :: "string option"
  hasProhibitedContent :: bool
  queuedReminders :: "string list"

definition stream_init :: "string list \<Rightarrow> stream_locals" where
  "stream_init q =
     \<lparr>accumulatedChunk = None, accumulatedText = [], hasStartedThinking = False,
      currentMsgId = None, hasProhibitedContent = False, queuedReminders = q\<rparr>"

text \<open>\<^verbatim>\<open>if (currentMsgId) publishMessage(createMessageWithId(currentMsgId, text, "thinking"))\<close>.\<close>

definition publish_with_id :: "string option \<Rightarrow> string \<Rightarrow> agent_state \<Rightarrow> agent_state" where
  "publish_with_id i_opt txt s =
     (case i_opt of
        Some i \<Rightarrow> (if i \<noteq> [] then publish (Message (Some i) txt Thinking) s else s)
      | None \<Rightarrow> s)"

text \<open>The first half of the text branch: accumulate, and on the first detection of a
  prohibited tag replace what is displayed, queue the reminder and count an error.\<close>

definition detect_prohibited :: "string \<Rightarrow> stream_locals \<Rightarrow> agent_state \<Rightarrow> stream_locals \<times> agent_state" where
  "detect_prohibited txt l s =
     (let l1 = l\<lparr>accumulatedText := accumulatedText l @ txt\<rparr>
      in if \<not> hasProhibitedContent l1 then
           (case find (\<lambda>tag. includes_str (accumulatedText l1) tag) PROHIBITED_TAGS of
              Some detectedTag \<Rightarrow>
                (let s1 = publish_with_id (currentMsgId l1) ''Processing...'' s
                 in (l1\<lparr>hasProhibitedContent := True,
                        queuedReminders := queuedReminders l1 @ [SYSTEM_REMINDER]\<rparr>,
                     s1\<lparr>errors := errors s1 + 1\<rparr>))
            | None \<Rightarrow> (l1, s))
         else (l1, s))"

text \<open>The second half: forward the accumulated text while nothing prohibited was seen.\<close>

definition forward_text :: "env \<Rightarrow> stream_locals \<Rightarrow> agent_state \<Rightarrow> stream_locals \<times> agent_state" where
  "forward_text e l s =
     (if \<not> hasProhibitedContent l then
        (let l1 = (if \<not> hasStartedThinking l
                   then l\<lparr>hasStartedThinking := True, currentMsgId := Some (generateId e (tick s))\<rparr>
                   else l)
         in (l1, publish_with_id (currentMsgId l1) (accumulatedText l1) s))
      else (l, s))"

definition stream_chunk :: "env \<Rightarrow> AIMessageChunk \<Rightarrow> stream_locals \<Rightarrow> agent_state \<Rightarrow> stream_locals \<times> agent_state" where
  "stream_chunk e chunk l s =
     (let (l2, s2) =
            (case chunk_content chunk of
               TextContent txt \<Rightarrow>
                 (if txt \<noteq> [] then
                    (let (l1, s1) = detect_prohibited txt l s in forward_text e l1 s1)
                  else (l, s))
             | ComplexContent \<Rightarrow> (l, s))
      in (l2\<lparr>accumulatedChunk :=
                Some (case accumulatedChunk l2 of
                        None \<Rightarrow> chunk
                      | Some acc \<Rightarrow> chunk_concat e acc chunk)\<rparr>,
          s2))"

text \<open>The \<^verbatim>\<open>for await\<close> loop: each chunk arrives at a new tick and is preceded by the
  cancellation check.\<close>

fun stream_loop ::
  "env \<Rightarrow> AIMessageChunk list \<Rightarrow> stream_locals \<Rightarrow> agent_state \<Rightarrow> (error + stream_locals) \<times> agent_state"
where
  "stream_loop e [] l s = (Inr l, s)"
| "stream_loop e (chunk # rest) l s =
     (let s0 = s\<lparr>tick := tick s + 1\<rparr>
      in case checkIfAborted e s0 of
           Some err \<Rightarrow> (Inl err, s0)
         | None \<Rightarrow> (let (l1, s1) = stream_chunk e chunk l s0 in stream_loop e rest l1 s1))"

definition stream_finish :: "stream_locals \<Rightarrow> agent_state \<Rightarrow> AIMessage \<times> agent_state" where
  "stream_finish l s =
     (let s1 = (if hasStartedThinking l \<and> \<not> hasProhibitedContent l
                   \<and> trim_nonempty (accumulatedText l)
                then publish_with_id (currentMsgId l) (accumulatedText l) s else s)
      in case accumulatedChunk l of
           None \<Rightarrow> (\<lparr>msg_content = TextContent [], tool_calls = []\<rparr>, s1)
         | Some acc \<Rightarrow>
             (\<lparr>msg_content = chunk_content acc, tool_calls = chunk_tool_calls acc\<rparr>, s1))"

text \<open>\<^verbatim>\<open>_invokeLLMWithStreaming(messageManager)\<close>, called once \<^verbatim>\<open>_initialize\<close> has bound
  the model; \<open>q\<close> are the reminders already queued on the message manager, and the
  result carries the queue as the call leaves it.\<close>

definition invokeLLMWithStreaming ::
  "env \<Rightarrow> string list \<Rightarrow> agent_state \<Rightarrow> (error + AIMessage \<times> string list) \<times> agent_state"
where
  "invokeLLMWithStreaming e q s =
     (let s0 = s\<lparr>llmInvocations := llmInvocations s + 1,
                  llmReminders := llmReminders s @ [q]\<rparr>
      in case llm_stream e (llmInvocations s) of
           StreamFails chunks err \<Rightarrow>
             (case stream_loop e chunks (stream_init q) s0 of
                (Inl err1, s1) \<Rightarrow> (Inl err1, s1)
              | (Inr l, s1) \<Rightarrow> (Inl err, s1))
         | Stream chunks \<Rightarrow>
             (case stream_loop e chunks (stream_init q) s0 of
                (Inl err, s1) \<Rightarrow> (Inl err, s1)
              | (Inr l, s1) \<Rightarrow>
                  (let (m, s2) = stream_finish l s1 in (Inr (m, queuedReminders l), s2))))"

subsection \<open>Waiting for the human\<close>

definition MSG_TIMEOUT :: string where
  "MSG_TIMEOUT =
     [CHR 0xE2, CHR 0x8F, CHR 0xB1, CHR 0xEF, CHR 0xB8, CHR 0x8F]
       @ '' Human input timed out after 10 minutes''"

definition MSG_ABORTED :: string where
  "MSG_ABORTED = [CHR 0xE2, CHR 0x9D, CHR 0x8C] @ '' Task aborted by human''"

definition MSG_CONTINUING :: string where
  "MSG_CONTINUING =
     [CHR 0xE2, CHR 0x9C, CHR 0x85] @ '' Human completed manual action. Continuing...''"

text \<open>The subscription made by \<^verbatim>\<open>_waitForHumanInput\<close>: a response event whose request id
  matches is stored in the execution context.\<close>

definition deliver :: "env \<Rightarrow> string \<Rightarrow> agent_state \<Rightarrow> agent_state" where
  "deliver e rid s =
     foldl (\<lambda>st ev. if requestId ev = rid then st\<lparr>humanInputResponse := Some ev\<rparr> else st)
       s (humanInputEvents e (tick s))"

definition outcome_of_action :: "hi_action \<Rightarrow> hi_outcome" where
  "outcome_of_action a = (case a of ActionDone \<Rightarrow> HiDone | ActionAbort \<Rightarrow> HiAbort)"

text \<open>
  The poll loop. \<open>elapsed\<close> is \<^verbatim>\<open>Date.now() - startTime\<close>: the sum of the sleeps so far,
  each at least the \<^verbatim>\<open>HUMAN_INPUT_CHECK_INTERVAL\<close> asked of \<^verbatim>\<open>setTimeout\<close>. A sleep is one
  tick, during which response events are delivered.
\<close>

function waitForHumanInput_loop ::
  "env \<Rightarrow> string \<Rightarrow> nat \<Rightarrow> agent_state \<Rightarrow> hi_outcome \<times> agent_state"
where
  "waitForHumanInput_loop e rid elapsed s =
     (if aborted e s then (HiAbort, s)
      else case humanInputResponse s of
             Some response \<Rightarrow> (outcome_of_action (action response), s)
           | None \<Rightarrow>
               (if elapsed > HUMAN_INPUT_TIMEOUT then
                  (HiTimeout, publishMessage MSG_TIMEOUT ErrorMessage s)
                else
                  waitForHumanInput_loop e rid
                    (elapsed + max HUMAN_INPUT_CHECK_INTERVAL (sleepDuration e (tick s)))
                    (deliver e rid (s\<lparr>tick := tick s + 1\<rparr>))))"
  by pat_completeness auto
termination
  by (relation "measure (\<lambda>(e, rid, elapsed, s). HUMAN_INPUT_TIMEOUT + 1 - elapsed)")
     (auto simp: HUMAN_INPUT_TIMEOUT_def HUMAN_INPUT_CHECK_INTERVAL_def)

declare waitForHumanInput_loop.simps [simp del]

definition waitForHumanInput :: "env \<Rightarrow> agent_state \<Rightarrow> hi_outcome \<times> agent_state" where
  "waitForHumanInput e s =
     (case humanInputRequestId e (tick s) of
        None \<Rightarrow> (HiAbort, s)
      | Some rid \<Rightarrow> (if rid = [] then (HiAbort, s) else waitForHumanInput_loop e rid 0 s))"

subsection \<open>One iteration\<close>

definition NO_TOOL_CALLS_ERROR :: error where
  "NO_TOOL_CALLS_ERROR =
     Error (''Executor failed for '' @ number_toString MAX_RETRIES @ '' retries - no tool calls generated'')"

text \<open>
  The \<^verbatim>\<open>try\<close> block of \<^verbatim>\<open>_runDynamicAgent\<close> and of \<^verbatim>\<open>_runPredefinedAgent\<close>, which differ
  in the prompts only. The prompts and the browser-state message go to the model, which
  is a collaborator here; what the block does to the agent is: count the observation,
  build the history context (which may compact the history), invoke the model on a fresh
  message manager, then dispatch the batch or count the empty turn.
\<close>

text \<open>\<^verbatim>\<open>(getMaxTokens() - systemPromptTokens) * 0.7\<close>, in exact arithmetic.\<close>

definition historyTokenLimit :: "env \<Rightarrow> mode \<Rightarrow> real" where
  "historyTokenLimit e m = real_of_int (getMaxTokens e - systemPromptTokens e m) * 0.7"

definition runAgent_try ::
  "env \<Rightarrow> mode \<Rightarrow> string \<Rightarrow> agent_state \<Rightarrow> (error + UnifiedResult) \<times> agent_state"
where
  "runAgent_try e m task s =
     (let s0 = s\<lparr>observations := observations s + 1\<rparr>;
          (executionHistoryContext, s1) =
             buildExecutionHistoryContext e (historyTokenLimit e m) task s0
      in case invokeLLMWithStreaming e [] s1 of
           (Inl err, s2) \<Rightarrow> (Inl err, s2)
         | (Inr (llmResponse, q), s2) \<Rightarrow>
             (if tool_calls llmResponse \<noteq> [] then
                processToolCalls e (tool_calls llmResponse) (s2\<lparr>consecutiveNoToolCalls := 0\<rparr>)
              else
                (let s3 = s2\<lparr>consecutiveNoToolCalls := consecutiveNoToolCalls s2 + 1\<rparr>
                 in if consecutiveNoToolCalls s3 \<ge> MAX_RETRIES then (Inl NO_TOOL_CALLS_ERROR, s3)
                    else (Inr \<lparr>doneToolCalled = False, requiresHumanInput = False\<rparr>, s3))))"

text \<open>The \<^verbatim>\<open>catch\<close> clause around it: whatever was thrown, count an error and return
  a result with both flags unset.\<close>

definition runAgent :: "env \<Rightarrow> mode \<Rightarrow> string \<Rightarrow> agent_state \<Rightarrow> UnifiedResult \<times> agent_state" where
  "runAgent e m task s =
     (case runAgent_try e m task s of
        (Inr r, s1) \<Rightarrow> (r, s1)
      | (Inl err, s1) \<Rightarrow>
          (\<lparr>doneToolCalled = False, requiresHumanInput = False\<rparr>, s1\<lparr>errors := errors s1 + 1\<rparr>))"

definition runDynamicAgent :: "env \<Rightarrow> string \<Rightarrow> agent_state \<Rightarrow> UnifiedResult \<times> agent_state" where
  "runDynamicAgent e task s = runAgent e Dynamic task s"

definition runPredefinedAgent :: "env \<Rightarrow> string \<Rightarrow> agent_state \<Rightarrow> UnifiedResult \<times> agent_state" where
  "runPredefinedAgent e task s = runAgent e Predefined task s"

text \<open>The human-input block of both loops: wait, throw on \<^verbatim>\<open>'abort'\<close>, otherwise
  announce that the human is done and clear the human-input state.\<close>

definition handleHumanInput :: "env \<Rightarrow> agent_state \<Rightarrow> error option \<times> agent_state" where
  "handleHumanInput e s =
     (let (humanResponse, s1) = waitForHumanInput e s
      in if humanResponse = HiAbort then
           (Some (AbortError (Some ''Task aborted by human'')), publishMessage MSG_ABORTED Assistant s1)
         else (None, (publishMessage MSG_CONTINUING Thinking s1)\<lparr>humanInputResponse := None\<rparr>))"


subsection \<open>The iteration counter is written by the loops only\<close>

lemma iterations_publish [simp]: "iterations (publish m s) = iterations s"
  by (simp add: publish_def)

lemma iterations_publishMessage [simp]: "iterations (publishMessage c ty s) = iterations s"
  by (simp add: publishMessage_def)

lemma iterations_emitDevModeDebug [simp]: "iterations (emitDevModeDebug e a d s) = iterations s"
  by (simp add: emitDevModeDebug_def Let_def)

lemma iterations_publish_with_id [simp]: "iterations (publish_with_id i t s) = iterations s"
  by (simp add: publish_with_id_def split: option.splits)

lemma iterations_maybeStartGlowAnimation [simp]:
  "iterations (maybeStartGlowAnimation n s) = iterations s"
  by (simp add: maybeStartGlowAnimation_def)

lemma iterations_dispatch [simp]: "iterations (snd (dispatch e n a s)) = iterations s"
  by (simp add: dispatch_def Let_def split: option.splits tool_outcome.splits)

lemma iterations_processToolCalls_loop [simp]:
  "iterations (snd (processToolCalls_loop e calls r s)) = iterations s"
proof (induction calls arbitrary: r s)
  case Nil
  then show ?case by simp
next
  case (Cons c calls)
  show ?case
  proof (cases "checkIfAborted e s")
    case None
    obtain tr s2 where d: "dispatch e (name c) (call_args c)
        (maybeStartGlowAnimation (name c)
           (emitDevModeDebug e (''Calling tool '' @ name c @ '' with args'')
              (JSON_stringify (call_args c)) s)) = (tr, s2)"
      by force
    have "iterations s2 = iterations s"
      using arg_cong [OF d, of "\<lambda>p. iterations (snd p)"] by simp
    then show ?thesis
      using None d Cons.IH by (simp add: Let_def)
  next
    case (Some err)
    then show ?thesis by simp
  qed
qed

lemma iterations_processToolCalls [simp]:
  "iterations (snd (processToolCalls e calls s)) = iterations s"
  by (simp add: processToolCalls_def)

lemma iterations_summarize [simp]:
  "iterations (snd (summarizeExecutionHistory e h t l s)) = iterations s"
  by (simp add: summarizeExecutionHistory_def Let_def split: sum.splits)

lemma iterations_build [simp]:
  "iterations (snd (buildExecutionHistoryContext e l t s)) = iterations s"
proof -
  obtain r1 s1 where b: "summarizeExecutionHistory e (render_history (executionHistory s)) t l s = (r1, s1)"
    by force
  have "iterations s1 = iterations s"
    using arg_cong [OF b, of "\<lambda>p. iterations (snd p)"] by simp
  then show ?thesis
    using b by (simp add: buildExecutionHistoryContext_def Let_def split: sum.splits)
qed

lemma iterations_detect [simp]: "iterations (snd (detect_prohibited t l s)) = iterations s"
  by (simp add: detect_prohibited_def Let_def split: option.splits)

lemma iterations_forward [simp]: "iterations (snd (forward_text e l s)) = iterations s"
  by (simp add: forward_text_def Let_def)

lemma iterations_stream_chunk [simp]: "iterations (snd (stream_chunk e c l s)) = iterations s"
proof (cases "chunk_content c")
  case (TextContent tx)
  obtain l1 s1 where d: "detect_prohibited tx l s = (l1, s1)"
    by force
  have "iterations s1 = iterations s"
    using arg_cong [OF d, of "\<lambda>p. iterations (snd p)"] by simp
  moreover obtain l2 s2 where f: "forward_text e l1 s1 = (l2, s2)"
    by force
  moreover have "iterations s2 = iterations s1"
    using arg_cong [OF f, of "\<lambda>p. iterations (snd p)"] by simp
  ultimately show ?thesis
    using TextContent d by (simp add: stream_chunk_def Let_def)
next
  case ComplexContent
  then show ?thesis by (simp add: stream_chunk_def)
qed

lemma iterations_stream_loop [simp]: "iterations (snd (stream_loop e cs l s)) = iterations s"
proof (induction cs arbitrary: l s)
  case Nil
  then show ?case by simp
next
  case (Cons c cs)
  obtain l1 s1 where d: "stream_chunk e c l (s\<lparr>tick := tick s + 1\<rparr>) = (l1, s1)"
    by force
  have "iterations s1 = iterations s"
    using arg_cong [OF d, of "\<lambda>p. iterations (snd p)"] by simp
  then show ?case
    using d Cons.IH by (simp add: Let_def split: option.splits)
qed

lemma iterations_stream_finish [simp]: "iterations (snd (stream_finish l s)) = iterations s"
  by (simp add: stream_finish_def Let_def split: option.splits)

lemma iterations_invoke [simp]: "iterations (snd (invokeLLMWithStreaming e q s)) = iterations s"
proof (cases "llm_stream e (llmInvocations s)")
  case (StreamFails chunks err)
  obtain r1 s1 where d: "stream_loop e chunks (stream_init q)
      (s\<lparr>llmInvocations := llmInvocations s + 1, llmReminders := llmReminders s @ [q]\<rparr>)
        = (r1, s1)"
    by force
  have "iterations s1 = iterations s"
    using arg_cong [OF d, of "\<lambda>p. iterations (snd p)"] by simp
  then show ?thesis
    using StreamFails d by (cases r1) (simp_all add: invokeLLMWithStreaming_def)
next
  case (Stream chunks)
  obtain r1 s1 where d: "stream_loop e chunks (stream_init q)
      (s\<lparr>llmInvocations := llmInvocations s + 1, llmReminders := llmReminders s @ [q]\<rparr>)
        = (r1, s1)"
    by force
  have i1: "iterations s1 = iterations s"
    using arg_cong [OF d, of "\<lambda>p. iterations (snd p)"] by simp
  show ?thesis
  proof (cases r1)
    case (Inl err)
    then show ?thesis
      using Stream d i1 by (simp add: invokeLLMWithStreaming_def)
  next
    case (Inr l)
    obtain msg s2 where f: "stream_finish l s1 = (msg, s2)"
      by force
    have "iterations s2 = iterations s1"
      using arg_cong [OF f, of "\<lambda>p. iterations (snd p)"] by simp
    then show ?thesis
      using Stream d i1 Inr f by (simp add: invokeLLMWithStreaming_def)
  qed
qed

lemma iterations_deliver [simp]: "iterations (deliver e rid s) = iterations s"
proof -
  have "iterations (foldl (\<lambda>st ev. if requestId ev = rid
            then st\<lparr>humanInputResponse := Some ev\<rparr> else st) s evs) = iterations s" for evs
    by (induction evs arbitrary: s) auto
  then show ?thesis by (simp add: deliver_def)
qed

lemma iterations_wait_loop [simp]:
  "iterations (snd (waitForHumanInput_loop e rid el s)) = iterations s"
proof (induction e rid el s rule: waitForHumanInput_loop.induct)
  case (1 e rid elapsed s)
  show ?case
    using 1
    by (subst waitForHumanInput_loop.simps) (simp split: option.splits)
qed

lemma iterations_wait [simp]: "iterations (snd (waitForHumanInput e s)) = iterations s"
  by (simp add: waitForHumanInput_def split: option.splits)

lemma iterations_handleHumanInput [simp]: "iterations (snd (handleHumanInput e s)) = iterations s"
proof -
  obtain h s1 where w: "waitForHumanInput e s = (h, s1)"
    by force
  have "iterations s1 = iterations s"
    using arg_cong [OF w, of "\<lambda>p. iterations (snd p)"] by simp
  then show ?thesis
    using w by (simp add: handleHumanInput_def)
qed

lemma iterations_runAgent_try [simp]: "iterations (snd (runAgent_try e m task s)) = iterations s"
proof -
  obtain c s1 where b: "buildExecutionHistoryContext e (historyTokenLimit e m) task
      (s\<lparr>observations := observations s + 1\<rparr>) = (c, s1)"
    by force
  have i1: "iterations s1 = iterations s"
    using arg_cong [OF b, of "\<lambda>p. iterations (snd p)"] by simp
  obtain r2 s2 where v: "invokeLLMWithStreaming e [] s1 = (r2, s2)"
    by force
  have i2: "iterations s2 = iterations s"
    using arg_cong [OF v, of "\<lambda>p. iterations (snd p)"] i1 by simp
  show ?thesis
    using b v i2
    by (auto simp: runAgent_try_def Let_def split: sum.splits prod.splits)
qed

lemma iterations_runAgent [simp]: "iterations (snd (runAgent e m task s)) = iterations s"
proof -
  obtain r1 s1 where t: "runAgent_try e m task s = (r1, s1)"
    by force
  have "iterations s1 = iterations s"
    using arg_cong [OF t, of "\<lambda>p. iterations (snd p)"] by simp
  then show ?thesis
    using t by (cases r1) (simp_all add: runAgent_def)
qed

subsection \<open>The two loops\<close>

text \<open>
  The \<^verbatim>\<open>while (!done && this.iterations < MAX_UNIFIED_ITERATIONS)\<close> loop of
  \<^verbatim>\<open>_executeDynamic\<close>. \<^verbatim>\<open>done\<close> is set right before the \<^verbatim>\<open>break\<close>, so it is false at
  every test of the condition; the loop's value is the \<^verbatim>\<open>done\<close> it leaves, or what it
  throws.
\<close>

function executeDynamic_loop :: "env \<Rightarrow> string \<Rightarrow> agent_state \<Rightarrow> (error + bool) \<times> agent_state" where
  "executeDynamic_loop e task s =
     (if \<not> iterations s < MAX_UNIFIED_ITERATIONS then (Inr False, s)
      else
        (case checkIfAborted e s of
           Some err \<Rightarrow> (Inl err, s)
         | None \<Rightarrow>
             (let (r, s1) = runDynamicAgent e task (s\<lparr>iterations := iterations s + 1\<rparr>);
                  (thrown, s2) = (if requiresHumanInput r then handleHumanInput e s1 else (None, s1))
              in case thrown of
                   Some err \<Rightarrow> (Inl err, s2)
                 | None \<Rightarrow>
                     (if doneToolCalled r then
                        (Inr True, publishMessage ''Task completed successfully'' Assistant s2)
                      else executeDynamic_loop e task s2))))"
  by pat_completeness auto
termination
proof (relation "measure (\<lambda>(e, task, s). nat (MAX_UNIFIED_ITERATIONS - iterations s))")
  show "wf (measure (\<lambda>(e, task, s). nat (MAX_UNIFIED_ITERATIONS - iterations s)))"
    by simp
next
  fix e :: env and task :: string and s :: agent_state and x xa y xb xc ya
  assume lt: "\<not> \<not> iterations s < MAX_UNIFIED_ITERATIONS"
    and run: "x = runDynamicAgent e task (s\<lparr>iterations := iterations s + 1\<rparr>)" "(xa, y) = x"
    and hi: "xb = (if requiresHumanInput xa then handleHumanInput e y else (None, y))"
      "(xc, ya) = xb"
  have "iterations y = iterations s + 1"
    using arg_cong [OF run(1), of "\<lambda>p. iterations (snd p)"] run(2) [symmetric]
    by (simp add: runDynamicAgent_def)
  moreover have "iterations ya = iterations y"
  proof (cases "requiresHumanInput xa")
    case True
    then show ?thesis
      using arg_cong [OF hi(1), of "\<lambda>p. iterations (snd p)"] hi(2) [symmetric] by simp
  next
    case False
    then show ?thesis using hi by simp
  qed
  ultimately show "((e, task, ya), (e, task, s))
      \<in> measure (\<lambda>(e, task, s). nat (MAX_UNIFIED_ITERATIONS - iterations s))"
    using lt by simp
qed

declare executeDynamic_loop.simps [simp del]

text \<open>The loop of \<^verbatim>\<open>_executePredefined\<close>: the same, with the \<^verbatim>\<open>done\<close> test before the
  human-input block.\<close>

function executePredefined_loop :: "env \<Rightarrow> string \<Rightarrow> agent_state \<Rightarrow> (error + bool) \<times> agent_state" where
  "executePredefined_loop e task s =
     (if \<not> iterations s < MAX_UNIFIED_ITERATIONS then (Inr False, s)
      else
        (case checkIfAborted e s of
           Some err \<Rightarrow> (Inl err, s)
         | None \<Rightarrow>
             (let (r, s1) = runPredefinedAgent e task (s\<lparr>iterations := iterations s + 1\<rparr>)
              in if doneToolCalled r then
                   (Inr True, publishMessage ''Predefined task completed successfully'' Assistant s1)
                 else
                   (let (thrown, s2) =
                          (if requiresHumanInput r then handleHumanInput e s1 else (None, s1))
                    in case thrown of
                         Some err \<Rightarrow> (Inl err, s2)
                       | None \<Rightarrow> executePredefined_loop e task s2))))"
  by pat_completeness auto
termination
proof (relation "measure (\<lambda>(e, task, s). nat (MAX_UNIFIED_ITERATIONS - iterations s))")
  show "wf (measure (\<lambda>(e, task, s). nat (MAX_UNIFIED_ITERATIONS - iterations s)))"
    by simp
next
  fix e :: env and task :: string and s :: agent_state and x xa y xb xc ya
  assume lt: "\<not> \<not> iterations s < MAX_UNIFIED_ITERATIONS"
    and run: "x = runPredefinedAgent e task (s\<lparr>iterations := iterations s + 1\<rparr>)" "(xa, y) = x"
    and hi: "xb = (if requiresHumanInput xa then handleHumanInput e y else (None, y))"
      "(xc, ya) = xb"
  have "iterations y = iterations s + 1"
    using arg_cong [OF run(1), of "\<lambda>p. iterations (snd p)"] run(2) [symmetric]
    by (simp add: runPredefinedAgent_def)
  moreover have "iterations ya = iterations y"
  proof (cases "requiresHumanInput xa")
    case True
    then show ?thesis
      using arg_cong [OF hi(1), of "\<lambda>p. iterations (snd p)"] hi(2) [symmetric] by simp
  next
    case False
    then show ?thesis using hi by simp
  qed
  ultimately show "((e, task, ya), (e, task, s))
      \<in> measure (\<lambda>(e, task, s). nat (MAX_UNIFIED_ITERATIONS - iterations s))"
    using lt by simp
qed

declare executePredefined_loop.simps [simp del]

text \<open>The check after either loop: \<^verbatim>\<open>if (!done && this.iterations >= MAX_UNIFIED_ITERATIONS)\<close>
  publishes the message given and throws.\<close>

definition MAX_ITERATIONS_ERROR :: error where
  "MAX_ITERATIONS_ERROR =
     Error (''Maximum unified iterations ('' @ number_toString MAX_UNIFIED_ITERATIONS @ '') reached'')"

definition checkIterationLimit ::
  "string \<Rightarrow> (error + bool) \<times> agent_state \<Rightarrow> (error + unit) \<times> agent_state"
where
  "checkIterationLimit msg p =
     (case p of
        (Inl err, s) \<Rightarrow> (Inl err, s)
      | (Inr done, s) \<Rightarrow>
          (if \<not> done \<and> iterations s \<ge> MAX_UNIFIED_ITERATIONS then
             (Inl MAX_ITERATIONS_ERROR, publishMessage msg ErrorMessage s)
           else (Inr (), s)))"

definition executeDynamic :: "env \<Rightarrow> string \<Rightarrow> agent_state \<Rightarrow> (error + unit) \<times> agent_state" where
  "executeDynamic e task s =
     checkIterationLimit
       (''Task did not complete within '' @ number_toString MAX_UNIFIED_ITERATIONS @ '' iterations'')
       (executeDynamic_loop e task
          (publishMessage ''Starting unified task execution...'' Thinking s))"

definition executePredefined ::
  "env \<Rightarrow> string \<Rightarrow> string \<Rightarrow> agent_state \<Rightarrow> (error + unit) \<times> agent_state"
where
  "executePredefined e task planName s =
     checkIterationLimit
       (''Predefined task did not complete within '' @ number_toString MAX_UNIFIED_ITERATIONS
          @ '' iterations'')
       (executePredefined_loop e task
          (publishMessage (''Starting predefined task: '' @ planName) Thinking s))"

text \<open>\<^verbatim>\<open>_handleExecutionError\<close>: a cancellation is logged only, any other error is
  published.\<close>

definition handleExecutionError :: "error \<Rightarrow> agent_state \<Rightarrow> agent_state" where
  "handleExecutionError err s =
     (case err of
        AbortError m \<Rightarrow> s
      | Error errorMessage \<Rightarrow> publishMessage (''Error: '' @ errorMessage) ErrorMessage s)"

text \<open>The state reset of \<^verbatim>\<open>_initialize\<close> and of \<^verbatim>\<open>_cleanup\<close>.\<close>

definition reset :: "agent_state \<Rightarrow> agent_state" where
  "reset s = s\<lparr>iterations := 0, consecutiveNoToolCalls := 0, executionHistory := []\<rparr>"

text \<open>
  \<^verbatim>\<open>execute\<close>, from the point where \<^verbatim>\<open>_initialize\<close> has registered the tools and bound the
  model: run the loop of the mode, hand what it throws to \<^verbatim>\<open>_handleExecutionError\<close> and
  throw it again, clean up in either case. (The plan looked up for the two special task
  names only selects the mode and the plan.)
\<close>

definition execute ::
  "env \<Rightarrow> mode \<Rightarrow> string \<Rightarrow> string \<Rightarrow> agent_state \<Rightarrow> (error + unit) \<times> agent_state"
where
  "execute e m task planName s =
     (let (r, s1) = (case m of
                       Predefined \<Rightarrow> executePredefined e task planName (reset s)
                     | Dynamic \<Rightarrow> executeDynamic e task (reset s));
          s2 = (case r of Inl err \<Rightarrow> handleExecutionError err s1 | Inr u \<Rightarrow> s1)
      in (r, reset s2))"



subsection \<open>Specification predicates and example environments\<close>

text \<open>
  What the history entry \<open>en\<close> must be for the tool call \<open>c\<close>: the call's name and
  arguments, and as result the JSON text of \<^verbatim>\<open>{ok: false, error}\<close> for a name the registry
  does not know and for a handler that threw, the handler's own result otherwise.
\<close>

definition recorded :: "env \<Rightarrow> tool_call \<Rightarrow> SimpleExecutionEntry \<Rightarrow> bool" where
  "recorded e c en =
     (tool en = Some (name c) \<and> args en = Some (call_args c) \<and> summary en = None \<and>
      (case toolManager_get e (name c) of
         None \<Rightarrow> result en = Some (error_result (''Unknown tool: '' @ name c))
       | Some func \<Rightarrow>
           (\<exists>t. result en =
              Some (case func t (call_args c) of
                      Returns x \<Rightarrow> x
                    | Throws m \<Rightarrow> error_result (''Tool execution failed: '' @ m)))))"

text \<open>
  The handler invocations a batch gives rise to when it runs to its end: one per call
  whose name is in the registry, with the call's name and arguments, in the order of
  the calls.
\<close>

definition handler_calls :: "env \<Rightarrow> tool_call list \<Rightarrow> (string \<times> json) list" where
  "handler_calls e calls =
     map (\<lambda>c. (name c, call_args c)) (filter (\<lambda>c. toolManager_get e (name c) \<noteq> None) calls)"

text \<open>A small world to run the agent in: four registered tools, of which \<^verbatim>\<open>extract\<close>
  throws; a parser that looks for the two properties in the result text; a model that
  says nothing; no cancellation and no human response.\<close>

definition ok_handler :: "nat \<Rightarrow> json \<Rightarrow> tool_outcome" where
  \<open>ok_handler t a = Returns ''{"ok":true}''\<close>

definition demo_env :: env where
  \<open>demo_env =
     \<lparr>toolManager_get = (\<lambda>n.
          if n = ''click'' \<or> n = ''done'' then Some ok_handler
          else if n = ''human_input'' then Some (\<lambda>t a. Returns ''{"ok":true,"requiresHumanInput":true}'')
          else if n = ''extract'' then Some (\<lambda>t a. Throws ''page closed'')
          else None),
      jsonParseToolOutput = (\<lambda>r.
          \<lparr>parsed_ok = includes_str r ''"ok":true'',
           parsed_requiresHumanInput = includes_str r ''"requiresHumanInput":true''\<rparr>),
      isDevelopmentMode = False,
      dateNow = (\<lambda>t. 1000 * t),
      abortAt = None,
      llm_stream = (\<lambda>n. Stream []),
      chunk_concat = (\<lambda>a b.
          \<lparr>chunk_content = (case (chunk_content a, chunk_content b) of
                               (TextContent x, TextContent y) \<Rightarrow> TextContent (x @ y)
                             | _ \<Rightarrow> ComplexContent),
           chunk_tool_calls = chunk_tool_calls a @ chunk_tool_calls b\<rparr>),
      generateId = (\<lambda>t. ''msg_assistant_1''),
      countTokens = (\<lambda>text. length text div 4),
      getMaxTokens = 128000,
      systemPromptTokens = (\<lambda>m. 8000),
      summarizer_llm = (\<lambda>t budget task history. Inr (Some ''Clicked twice; nothing else happened.'')),
      humanInputRequestId = (\<lambda>t. Some ''req-1''),
      humanInputEvents = (\<lambda>t. []),
      sleepDuration = (\<lambda>t. 500)\<rparr>\<close>

definition fresh_state :: agent_state where
  "fresh_state =
     \<lparr>iterations = 0, consecutiveNoToolCalls = 0, executionHistory = [],
      humanInputResponse = None, published = [], errors = 0, observations = 0,
      toolInvocations = [], llmInvocations = 0, llmReminders = [], tick = 0\<rparr>"

definition call :: "string \<Rightarrow> tool_call" where
  "call n = \<lparr>name = n, call_args = JObj [], call_id = ''call_'' @ n\<rparr>"



text \<open>States with a history: one click in iteration 1, and one click in each of the
  iterations 1 to 6.\<close>

definition click_entry :: "int \<Rightarrow> SimpleExecutionEntry" where
  \<open>click_entry i =
     \<lparr>iteration = i, tool = Some ''click'', args = Some (JObj []),
      result = Some ''{"ok":true}'', summary = None, timestamp = 1000 * nat i\<rparr>\<close>

definition after_one_click :: agent_state where
  "after_one_click = fresh_state\<lparr>iterations := 2, tick := 1, executionHistory := [click_entry 1]\<rparr>"

definition after_six_clicks :: agent_state where
  "after_six_clicks =
     fresh_state\<lparr>iterations := 7, tick := 6,
       executionHistory := map click_entry [1, 2, 3, 4, 5, 6]\<rparr>"

text \<open>A state with a history of six tool calls with arguments of several kinds.\<close>

definition varied_history :: "SimpleExecutionEntry list" where
  \<open>varied_history =
     [\<lparr>iteration = 1, tool = Some ''navigate'',
        args = Some (JObj [(''url'', JStr ''https://example.com/shop'')]),
        result = Some ''{"ok":true,"output":"Navigated"}'', summary = None, timestamp = 1000\<rparr>,
      \<lparr>iteration = 2, tool = Some ''click'', args = Some (JObj [(''nodeId'', JNum ''12'')]),
        result = Some ''{"ok":true}'', summary = None, timestamp = 2000\<rparr>,
      \<lparr>iteration = 3, tool = Some ''type'',
        args = Some (JObj [(''nodeId'', JNum ''7''), (''text'', JStr ''say "hi"'')]),
        result = Some ''{"ok":true}'', summary = None, timestamp = 3000\<rparr>,
      \<lparr>iteration = 4, tool = Some ''extract'',
        args = Some (JObj [(''format'', JObj [(''fields'', JArr [JStr ''title'', JStr ''price''])]),
                           (''ratio'', JNum ''2.5''), (''strict'', JBool False)]),
        result = Some ''{"ok":false,"error":"Tool execution failed: page closed"}'',
        summary = None, timestamp = 4000\<rparr>,
      \<lparr>iteration = 5, tool = Some ''scroll'',
        args = Some (JObj [(''by'', JNum ''-300''), (''2'', JBool True), (''to'', JNull),
                           (''1'', JBool False)]),
        result = Some ''{"ok":true}'', summary = None, timestamp = 5000\<rparr>,
      \<lparr>iteration = 6, tool = Some ''zoom'', args = Some (JObj []),
        result = Some ''{"ok":false,"error":"Unknown tool: zoom"}'', summary = None,
        timestamp = 6000\<rparr>]\<close>

definition after_varied_history :: agent_state where
  "after_varied_history =
     fresh_state\<lparr>iterations := 7, tick := 6, executionHistory := varied_history\<rparr>"

definition failing_summarizer_env :: env where
  "failing_summarizer_env =
     demo_env\<lparr>summarizer_llm := (\<lambda>t budget task history. Inl (Error ''model unavailable''))\<rparr>"

text \<open>The visible text of a stream, the test the filter makes on it, and the placeholder
  that replaces what is displayed (nothing is displayed before the first message id).\<close>

definition chunk_text :: "AIMessageChunk \<Rightarrow> string" where
  "chunk_text c = (case chunk_content c of TextContent t \<Rightarrow> t | ComplexContent \<Rightarrow> [])"

definition stream_text :: "AIMessageChunk list \<Rightarrow> string" where
  "stream_text cs = concat (map chunk_text cs)"




text \<open>A model whose output leaks a tag of the prompt over two chunks, then calls a tool.\<close>

definition text_chunk :: "string \<Rightarrow> AIMessageChunk" where
  "text_chunk t = \<lparr>chunk_content = TextContent t, chunk_tool_calls = []\<rparr>"

definition calls_chunk :: "tool_call list \<Rightarrow> AIMessageChunk" where
  "calls_chunk cs = \<lparr>chunk_content = TextContent [], chunk_tool_calls = cs\<rparr>"



text \<open>The model's n-th invocation returns a message without tool calls.\<close>

definition no_tool_calls :: "env \<Rightarrow> nat \<Rightarrow> bool" where
  "no_tool_calls e n =
     (case llm_stream e n of
        StreamFails cs err \<Rightarrow> False
      | Stream cs \<Rightarrow>
          (case aggregate e None cs of None \<Rightarrow> True | Some a \<Rightarrow> chunk_tool_calls a = []))"

text \<open>Every handler invocation logged so far started no later than the tick at which the
  cancellation signal was set: the check before it passed, and at most the wait for the
  glow animation lies between the two.\<close>

definition invocations_before_abort :: "env \<Rightarrow> agent_state \<Rightarrow> bool" where
  "invocations_before_abort e s =
     list_all (\<lambda>(t, n, a). case abortAt e of None \<Rightarrow> True | Some ta \<Rightarrow> t \<le> ta)
       (toolInvocations s)"

text \<open>Models that call tools: \<^verbatim>\<open>done\<close> alone (accepted, or refused by the tool),
  \<^verbatim>\<open>human_input\<close> together with \<^verbatim>\<open>done\<close> (the human answers abort, or done),
  \<^verbatim>\<open>human_input\<close> and then \<^verbatim>\<open>done\<close> with a human who never answers and a timer that
  fires every 250 seconds; a model whose every invocation fails; and cancellations that
  arrive while the \<^verbatim>\<open>done\<close> handler runs, or before the run starts. The two states are
  what the first iteration leaves in two of these worlds.\<close>


definition done_env :: env where
  "done_env = demo_env\<lparr>llm_stream := (\<lambda>n. Stream [calls_chunk [call ''done'']])\<rparr>"

definition refused_done_env :: env where
  \<open>refused_done_env =
     done_env\<lparr>toolManager_get := (\<lambda>n.
        if n = ''done'' then Some (\<lambda>t a. Returns ''{"ok":false,"error":"not finished"}'')
        else toolManager_get demo_env n)\<rparr>\<close>

definition human_abort_env :: env where
  "human_abort_env =
     demo_env\<lparr>llm_stream := (\<lambda>n. Stream [calls_chunk [call ''human_input'', call ''done'']]),
       humanInputEvents := (\<lambda>t. [\<lparr>requestId = ''req-1'', action = ActionAbort\<rparr>])\<rparr>"

definition human_done_env :: env where
  "human_done_env =
     human_abort_env\<lparr>humanInputEvents := (\<lambda>t. [\<lparr>requestId = ''req-1'', action = ActionDone\<rparr>])\<rparr>"

definition timeout_env :: env where
  "timeout_env =
     demo_env\<lparr>llm_stream := (\<lambda>n. if n = 0 then Stream [calls_chunk [call ''human_input'']]
                                else Stream [calls_chunk [call ''done'']]),
       sleepDuration := (\<lambda>t. 250000)\<rparr>"

definition failing_model_env :: env where
  "failing_model_env =
     demo_env\<lparr>llm_stream := (\<lambda>n. StreamFails [] (Error ''503 Service Unavailable''))\<rparr>"

definition cancel_late_env :: env where
  "cancel_late_env = done_env\<lparr>abortAt := Some 2\<rparr>"


definition after_human_and_done :: agent_state where
  \<open>after_human_and_done =
     fresh_state\<lparr>iterations := 1, observations := 1, llmInvocations := 1,
       llmReminders := [[]], tick := 3,
       toolInvocations := [(1, ''human_input'', JObj []), (2, ''done'', JObj [])],
       executionHistory :=
         [\<lparr>iteration = 1, tool = Some ''human_input'', args = Some (JObj []),
           result = Some ''{"ok":true,"requiresHumanInput":true}'', summary = None,
           timestamp = 2000\<rparr>,
          \<lparr>iteration = 1, tool = Some ''done'', args = Some (JObj []),
           result = Some ''{"ok":true}'', summary = None, timestamp = 3000\<rparr>]\<rparr>\<close>

definition after_refused_done :: agent_state where
  \<open>after_refused_done =
     fresh_state\<lparr>iterations := 1, observations := 1, llmInvocations := 1,
       llmReminders := [[]], tick := 2,
       toolInvocations := [(1, ''done'', JObj [])],
       executionHistory :=
         [\<lparr>iteration = 1, tool = Some ''done'', args = Some (JObj []),
           result = Some ''{"ok":false,"error":"not finished"}'', summary = None,
           timestamp = 2000\<rparr>]\<rparr>\<close>

definition cancel_in_stream_env :: env where
  "cancel_in_stream_env =
     demo_env\<lparr>llm_stream := (\<lambda>n. Stream [text_chunk ''Looking at the page'']),
       abortAt := Some 1\<rparr>"

definition before_last_iteration :: agent_state where
  "before_last_iteration = fresh_state\<lparr>iterations := 29\<rparr>"




section \<open>Properties\<close>

subsection \<open>Dispatching a batch\<close>

lemma own_properties_Nil [simp]: "own_properties [] = []"
  by (simp add: own_properties_def)

lemma own_properties_eval:
  "own_properties (kv # kvs) =
     (let ps = foldl (\<lambda>acc kv. put_property (fst kv) (snd kv) acc) [kv] kvs
      in sort_key (\<lambda>p. case array_index (fst p) of Some n \<Rightarrow> n | None \<Rightarrow> 0)
           (filter (\<lambda>p. array_index (fst p) \<noteq> None) ps)
         @ filter (\<lambda>p. array_index (fst p) = None) ps)"
  by (simp add: own_properties_def)

lemma error_result_text:
  \<open>error_result errorMsg = ''{"ok":false,"error":'' @ json_quote errorMsg @ ''}''\<close>
  by (simp add: error_result_def own_properties_def array_index_def json_quote_def
      json_escape_char_def)

lemma tick_emitDevModeDebug [simp]: "tick (emitDevModeDebug e a d s) = tick s"
  by (simp add: emitDevModeDebug_def publishMessage_def publish_def Let_def)

lemma toolInvocations_emitDevModeDebug [simp]:
  "toolInvocations (emitDevModeDebug e a d s) = toolInvocations s"
  by (simp add: emitDevModeDebug_def publishMessage_def publish_def Let_def)

lemma maybeStartGlowAnimation_facts [simp]:
  "executionHistory (maybeStartGlowAnimation n s) = executionHistory s"
  "toolInvocations (maybeStartGlowAnimation n s) = toolInvocations s"
  "tick s \<le> tick (maybeStartGlowAnimation n s)"
  "tick (maybeStartGlowAnimation n s) \<le> tick s + 1"
  by (simp_all add: maybeStartGlowAnimation_def)

lemma history_emitDevModeDebug [simp]:
  "executionHistory (emitDevModeDebug e a d s) = executionHistory s"
  by (simp add: emitDevModeDebug_def publishMessage_def publish_def Let_def)

lemma dispatch_facts:
  assumes "dispatch e n a s = (tr, s2)"
  shows "executionHistory s2 = executionHistory s" "tick s2 \<le> tick s + 1"
    "toolManager_get e n = None \<Longrightarrow> tr = error_result (''Unknown tool: '' @ n)"
    "toolManager_get e n = Some func \<Longrightarrow>
       tr = (case func (tick s) a of Returns x \<Rightarrow> x
             | Throws m \<Rightarrow> error_result (''Tool execution failed: '' @ m))"
  using assms
  by (auto simp: dispatch_def Let_def split: option.splits tool_outcome.splits)

lemma processToolCalls_loop_records:
  assumes "processToolCalls_loop e calls r s = (res, s')" and "\<not> aborted e s'"
  shows "\<exists>r' new. res = Inr r'
           \<and> executionHistory s' = executionHistory s @ new \<and> list_all2 (recorded e) calls new"
  using assms
proof (induction calls arbitrary: r s)
  case Nil
  then show ?case by auto
next
  case (Cons c calls)
  let ?s1 = "maybeStartGlowAnimation (name c)
               (emitDevModeDebug e (''Calling tool '' @ name c @ '' with args'')
                  (JSON_stringify (call_args c)) s)"
  obtain tr s2 where d: "dispatch e (name c) (call_args c) ?s1 = (tr, s2)"
    by force
  note df = dispatch_facts [OF d]
  let ?en = "record_call e c tr s2"
  let ?s3 = "s2\<lparr>executionHistory := executionHistory s2 @ [?en]\<rparr>"
  have na: "\<not> aborted e s"
  proof
    assume "aborted e s"
    then have "s' = s"
      using Cons.prems(1) by (simp add: checkIfAborted_def)
    then show False
      using Cons.prems(2) \<open>aborted e s\<close> by simp
  qed
  then have l: "processToolCalls_loop e calls (update_flags e c tr r) ?s3 = (res, s')"
    using Cons.prems(1) d by (simp add: checkIfAborted_def)
  from Cons.IH [OF l Cons.prems(2)] obtain r' new where
    res: "res = Inr r'" and h: "executionHistory s' = executionHistory ?s3 @ new"
    and a: "list_all2 (recorded e) calls new"
    by blast
  have rec: "recorded e c ?en"
    using df(3,4) by (auto simp: recorded_def record_call_def split: option.splits)
  have "executionHistory s' = executionHistory s @ (?en # new)"
    using h df(1) by simp
  moreover have "list_all2 (recorded e) (c # calls) (?en # new)"
    using rec a by simp
  ultimately show ?case
    using res by blast
qed

lemma dispatch_invocations:
  assumes "dispatch e n a s = (tr, s2)"
  shows "toolInvocations s2 =
           toolInvocations s @ (case toolManager_get e n of None \<Rightarrow> [] | Some func \<Rightarrow> [(tick s, n, a)])"
  using assms
  by (auto simp: dispatch_def Let_def split: option.splits tool_outcome.splits)

lemma processToolCalls_loop_order:
  assumes "processToolCalls_loop e calls r s = (Inr r', s')"
  shows "\<exists>inv. toolInvocations s' = toolInvocations s @ inv
           \<and> map snd inv = handler_calls e calls"
  using assms
proof (induction calls arbitrary: r s)
  case Nil
  then show ?case by (simp add: handler_calls_def)
next
  case (Cons c calls)
  let ?s1 = "maybeStartGlowAnimation (name c)
               (emitDevModeDebug e (''Calling tool '' @ name c @ '' with args'')
                  (JSON_stringify (call_args c)) s)"
  obtain tr s2 where d: "dispatch e (name c) (call_args c) ?s1 = (tr, s2)"
    by force
  let ?s3 = "s2\<lparr>executionHistory := executionHistory s2 @ [record_call e c tr s2]\<rparr>"
  have l: "processToolCalls_loop e calls (update_flags e c tr r) ?s3 = (Inr r', s')"
    using Cons.prems d by (simp add: Let_def split: option.splits)
  from Cons.IH [OF l] obtain inv where
    i: "toolInvocations s' = toolInvocations ?s3 @ inv"
    and m: "map snd inv = handler_calls e calls"
    by blast
  let ?first = "case toolManager_get e (name c) of None \<Rightarrow> []
                | Some func \<Rightarrow> [(tick ?s1, name c, call_args c)]"
  have "toolInvocations s' = toolInvocations s @ (?first @ inv)"
    using i dispatch_invocations [OF d] by simp
  moreover have "map snd (?first @ inv) = handler_calls e (c # calls)"
    using m by (auto simp: handler_calls_def split: option.splits)
  ultimately show ?case by blast
qed

text \<open>
  Claim C1, as amended. For every batch of tool calls at whose end the cancellation
  signal is not set, \<open>processToolCalls\<close> returns normally and has appended to the
  execution history exactly one entry per call, in the order of the calls: the entry
  holds the call's name and arguments and, as result, the handler's result, or the
  \<^verbatim>\<open>ok:false\<close> text for an unknown name or a handler that threw. The handlers
  have been invoked in the order of the calls, once for each call whose name is in the
  registry, with that call's arguments.
\<close>

theorem processToolCalls_one_result_per_call:
  assumes "processToolCalls e calls s = (res, s')" and "\<not> aborted e s'"
  shows "\<exists>r new inv. res = Inr r
           \<and> executionHistory s' = executionHistory s @ new
           \<and> list_all2 (recorded e) calls new
           \<and> toolInvocations s' = toolInvocations s @ inv
           \<and> map snd inv = handler_calls e calls"
proof -
  note run = assms(1) [unfolded processToolCalls_def]
  from processToolCalls_loop_records [OF run assms(2)] obtain r new where
    r: "res = Inr r" "executionHistory s' = executionHistory s @ new"
      "list_all2 (recorded e) calls new"
    by blast
  from processToolCalls_loop_order [OF run [unfolded r(1)]] obtain inv where
    "toolInvocations s' = toolInvocations s @ inv" "map snd inv = handler_calls e calls"
    by blast
  with r show ?thesis by blast
qed

lemmas batch_eval = processToolCalls_def checkIfAborted_def aborted_def demo_env_def
  fresh_state_def call_def dispatch_def emitDevModeDebug_def record_call_def Let_def
  maybeStartGlowAnimation_def GLOW_ENABLED_TOOLS_def update_flags_def error_result_text
  json_quote_def json_escape_char_def ok_handler_def

theorem processToolCalls_one_result_per_call_witness:
  \<open>processToolCalls demo_env [call ''click'', call ''zoom'', call ''extract''] fresh_state
     = (Inr \<lparr>doneToolCalled = False, requiresHumanInput = False\<rparr>,
        snd (processToolCalls demo_env [call ''click'', call ''zoom'', call ''extract''] fresh_state))
   \<and> \<not> aborted demo_env
        (snd (processToolCalls demo_env [call ''click'', call ''zoom'', call ''extract''] fresh_state))
   \<and> (\<exists>new inv. executionHistory
          (snd (processToolCalls demo_env [call ''click'', call ''zoom'', call ''extract''] fresh_state))
            = executionHistory fresh_state @ new
         \<and> list_all2 (recorded demo_env) [call ''click'', call ''zoom'', call ''extract''] new
         \<and> toolInvocations
          (snd (processToolCalls demo_env [call ''click'', call ''zoom'', call ''extract''] fresh_state))
            = toolInvocations fresh_state @ inv
         \<and> map snd inv = [(''click'', JObj []), (''extract'', JObj [])])\<close>
proof -
  let ?p = "processToolCalls demo_env [call ''click'', call ''zoom'', call ''extract''] fresh_state"
  have f: "fst ?p = Inr \<lparr>doneToolCalled = False, requiresHumanInput = False\<rparr>"
    by (simp add: batch_eval)
  have h1: "?p = (Inr \<lparr>doneToolCalled = False, requiresHumanInput = False\<rparr>, snd ?p)"
    using f by (simp add: prod_eq_iff)
  have h2: "\<not> aborted demo_env (snd ?p)"
    by (simp add: aborted_def demo_env_def)
  have v: "handler_calls demo_env [call ''click'', call ''zoom'', call ''extract'']
             = [(''click'', JObj []), (''extract'', JObj [])]"
    by (simp add: handler_calls_def demo_env_def call_def)
  show ?thesis
    using h1 h2 processToolCalls_one_result_per_call [OF h1 h2] unfolding v by simp
qed

lemma processToolCalls_example:
  \<open>map result (executionHistory (snd (processToolCalls demo_env
      [call ''click'', call ''zoom'', call ''extract''] fresh_state)))
   = [Some ''{"ok":true}'',
      Some ''{"ok":false,"error":"Unknown tool: zoom"}'',
      Some ''{"ok":false,"error":"Tool execution failed: page closed"}'']\<close>
  by (simp add: batch_eval)

text \<open>
  Claim C1 as stated fails when the run is cancelled inside a batch: the check before
  the second dispatch throws \<^verbatim>\<open>AbortError\<close>, and the batch of two calls leaves one entry.
\<close>

theorem processToolCalls_cancelled_counterexample:
  "fst (processToolCalls (demo_env\<lparr>abortAt := Some 1\<rparr>) [call ''click'', call ''click''] fresh_state)
     = Inl (AbortError None)
   \<and> length (executionHistory (snd (processToolCalls (demo_env\<lparr>abortAt := Some 1\<rparr>)
        [call ''click'', call ''click''] fresh_state))) = 1"
  by (simp add: batch_eval)

lemma processToolCalls_loop_flags:
  assumes "processToolCalls_loop e calls r s = (Inr r', s')"
  shows "\<exists>new. executionHistory s' = executionHistory s @ new \<and> length new = length calls
           \<and> (\<forall>en \<in> set new. result en \<noteq> None)
           \<and> doneToolCalled r' =
               (doneToolCalled r \<or> (\<exists>i<length calls. name (calls ! i) = ''done''
                   \<and> parsed_ok (jsonParseToolOutput e (the (result (new ! i))))))
           \<and> requiresHumanInput r' =
               (requiresHumanInput r \<or> (\<exists>i<length calls. name (calls ! i) = ''human_input''
                   \<and> parsed_ok (jsonParseToolOutput e (the (result (new ! i))))
                   \<and> parsed_requiresHumanInput (jsonParseToolOutput e (the (result (new ! i))))))"
  using assms
proof (induction calls arbitrary: r s)
  case Nil
  then show ?case by simp
next
  case (Cons c calls)
  let ?s1 = "maybeStartGlowAnimation (name c)
               (emitDevModeDebug e (''Calling tool '' @ name c @ '' with args'')
                  (JSON_stringify (call_args c)) s)"
  obtain tr s2 where d: "dispatch e (name c) (call_args c) ?s1 = (tr, s2)"
    by force
  note df = dispatch_facts [OF d]
  let ?en = "record_call e c tr s2"
  let ?s3 = "s2\<lparr>executionHistory := executionHistory s2 @ [?en]\<rparr>"
  let ?r1 = "update_flags e c tr r"
  have l: "processToolCalls_loop e calls ?r1 ?s3 = (Inr r', s')"
    using Cons.prems d by (simp add: Let_def split: option.splits)
  from Cons.IH [OF l] obtain new where
    h: "executionHistory s' = executionHistory ?s3 @ new" and n: "length new = length calls"
    and rs: "\<forall>en \<in> set new. result en \<noteq> None"
    and dn: "doneToolCalled r' =
               (doneToolCalled ?r1 \<or> (\<exists>i<length calls. name (calls ! i) = ''done''
                   \<and> parsed_ok (jsonParseToolOutput e (the (result (new ! i))))))"
    and hn: "requiresHumanInput r' =
               (requiresHumanInput ?r1 \<or> (\<exists>i<length calls. name (calls ! i) = ''human_input''
                   \<and> parsed_ok (jsonParseToolOutput e (the (result (new ! i))))
                   \<and> parsed_requiresHumanInput (jsonParseToolOutput e (the (result (new ! i))))))"
    by blast
  have r1d: "doneToolCalled ?r1 =
      (doneToolCalled r \<or> name c = ''done'' \<and> parsed_ok (jsonParseToolOutput e tr))"
    by (auto simp: update_flags_def Let_def)
  have r1h: "requiresHumanInput ?r1 =
      (requiresHumanInput r \<or> name c = ''human_input'' \<and> parsed_ok (jsonParseToolOutput e tr)
         \<and> parsed_requiresHumanInput (jsonParseToolOutput e tr))"
    by (auto simp: update_flags_def Let_def)
  have en: "result ?en = Some tr"
    by (simp add: record_call_def)
  have ex: "(\<exists>i<length (c # calls). P i) = (P 0 \<or> (\<exists>i<length calls. P (Suc i)))" for P
    by (auto simp: less_Suc_eq_0_disj)
  show ?case
  proof (intro exI [of _ "?en # new"] conjI)
    show "executionHistory s' = executionHistory s @ ?en # new"
      using h df(1) by simp
    show "length (?en # new) = length (c # calls)"
      using n by simp
    show "\<forall>en \<in> set (?en # new). result en \<noteq> None"
      using rs en by simp
    show "doneToolCalled r' =
        (doneToolCalled r \<or> (\<exists>i<length (c # calls). name ((c # calls) ! i) = ''done''
           \<and> parsed_ok (jsonParseToolOutput e (the (result ((?en # new) ! i))))))"
      unfolding ex dn r1d using en by auto
    show "requiresHumanInput r' =
        (requiresHumanInput r \<or> (\<exists>i<length (c # calls). name ((c # calls) ! i) = ''human_input''
           \<and> parsed_ok (jsonParseToolOutput e (the (result ((?en # new) ! i))))
           \<and> parsed_requiresHumanInput (jsonParseToolOutput e (the (result ((?en # new) ! i))))))"
      unfolding ex hn r1h using en by auto
  qed
qed


text \<open>
  Claim C10. A batch that returns sets \<open>doneToolCalled\<close> exactly when some call named
  \<^verbatim>\<open>done\<close> has a recorded result whose parsed \<^verbatim>\<open>ok\<close> holds, and \<open>requiresHumanInput\<close>
  exactly when some call named \<^verbatim>\<open>human_input\<close> has a result whose parsed \<^verbatim>\<open>ok\<close> and
  \<^verbatim>\<open>requiresHumanInput\<close> both hold. And an iteration whose result leaves \<open>doneToolCalled\<close>
  unset does not end the loop: after the human-input block, if any, the loop goes on
  from the state the iteration left.
\<close>

theorem done_and_human_input_flags:
  "(processToolCalls e calls s = (Inr r, s') \<longrightarrow>
      (\<exists>new. executionHistory s' = executionHistory s @ new \<and> length new = length calls
         \<and> doneToolCalled r =
             (\<exists>i<length calls. name (calls ! i) = ''done''
                \<and> (\<exists>tr. result (new ! i) = Some tr \<and> parsed_ok (jsonParseToolOutput e tr)))
         \<and> requiresHumanInput r =
             (\<exists>i<length calls. name (calls ! i) = ''human_input''
                \<and> (\<exists>tr. result (new ! i) = Some tr \<and> parsed_ok (jsonParseToolOutput e tr)
                      \<and> parsed_requiresHumanInput (jsonParseToolOutput e tr)))))
   \<and> (iterations s0 < MAX_UNIFIED_ITERATIONS \<and> \<not> aborted e s0
        \<and> runDynamicAgent e task (s0\<lparr>iterations := iterations s0 + 1\<rparr>) = (r0, s1)
        \<and> \<not> doneToolCalled r0 \<longrightarrow>
      executeDynamic_loop e task s0 =
        (if requiresHumanInput r0 then
           (case handleHumanInput e s1 of
              (Some err, s2) \<Rightarrow> (Inl err, s2)
            | (None, s2) \<Rightarrow> executeDynamic_loop e task s2)
         else executeDynamic_loop e task s1))"
proof (intro conjI impI)
  assume p: "processToolCalls e calls s = (Inr r, s')"
  from processToolCalls_loop_flags [OF p [unfolded processToolCalls_def]]
  obtain new where h: "executionHistory s' = executionHistory s @ new"
    and n: "length new = length calls"
    and rs: "\<forall>en \<in> set new. result en \<noteq> None"
    and dn: "doneToolCalled r =
               (\<exists>i<length calls. name (calls ! i) = ''done''
                   \<and> parsed_ok (jsonParseToolOutput e (the (result (new ! i)))))"
    and hn: "requiresHumanInput r =
               (\<exists>i<length calls. name (calls ! i) = ''human_input''
                   \<and> parsed_ok (jsonParseToolOutput e (the (result (new ! i))))
                   \<and> parsed_requiresHumanInput (jsonParseToolOutput e (the (result (new ! i)))))"
    by auto
  have some: "\<exists>tr. result (new ! i) = Some tr" if "i < length calls" for i
    using rs n that by (metis not_Some_eq nth_mem)
  have d': "doneToolCalled r =
      (\<exists>i<length calls. name (calls ! i) = ''done''
         \<and> (\<exists>tr. result (new ! i) = Some tr \<and> parsed_ok (jsonParseToolOutput e tr)))"
    unfolding dn using some by (metis option.sel)
  have h': "requiresHumanInput r =
      (\<exists>i<length calls. name (calls ! i) = ''human_input''
         \<and> (\<exists>tr. result (new ! i) = Some tr \<and> parsed_ok (jsonParseToolOutput e tr)
               \<and> parsed_requiresHumanInput (jsonParseToolOutput e tr)))"
    unfolding hn using some by (metis option.sel)
  show "\<exists>new. executionHistory s' = executionHistory s @ new \<and> length new = length calls
         \<and> doneToolCalled r =
             (\<exists>i<length calls. name (calls ! i) = ''done''
                \<and> (\<exists>tr. result (new ! i) = Some tr \<and> parsed_ok (jsonParseToolOutput e tr)))
         \<and> requiresHumanInput r =
             (\<exists>i<length calls. name (calls ! i) = ''human_input''
                \<and> (\<exists>tr. result (new ! i) = Some tr \<and> parsed_ok (jsonParseToolOutput e tr)
                      \<and> parsed_requiresHumanInput (jsonParseToolOutput e tr)))"
    using h n d' h' by blast
next
  assume a: "iterations s0 < MAX_UNIFIED_ITERATIONS \<and> \<not> aborted e s0
        \<and> runDynamicAgent e task (s0\<lparr>iterations := iterations s0 + 1\<rparr>) = (r0, s1)
        \<and> \<not> doneToolCalled r0"
  then show "executeDynamic_loop e task s0 =
        (if requiresHumanInput r0 then
           (case handleHumanInput e s1 of
              (Some err, s2) \<Rightarrow> (Inl err, s2)
            | (None, s2) \<Rightarrow> executeDynamic_loop e task s2)
         else executeDynamic_loop e task s1)"
    by (subst executeDynamic_loop.simps)
       (simp add: checkIfAborted_def split: prod.splits option.splits)
qed

subsection \<open>The history context\<close>

lemma decimal_digits_small: "n < 10 \<Longrightarrow> decimal_digits n = [digit_char n]"
  by (subst decimal_digits.simps) simp

lemma decimal_digits_large:
  "10 \<le> n \<Longrightarrow> decimal_digits n = decimal_digits (n div 10) @ [digit_char (n mod 10)]"
  by (subst decimal_digits.simps) (simp add: div_eq_0_iff)

lemmas number_text = number_toString_def decimal_digits_small decimal_digits_large digit_char_def

lemma MAX_ITERATIONS_ERROR_text:
  "MAX_ITERATIONS_ERROR = Error ''Maximum unified iterations (30) reached''"
  by (simp add: MAX_ITERATIONS_ERROR_def MAX_UNIFIED_ITERATIONS_def number_text)

lemma NO_TOOL_CALLS_ERROR_text:
  "NO_TOOL_CALLS_ERROR = Error ''Executor failed for 3 retries - no tool calls generated''"
  by (simp add: NO_TOOL_CALLS_ERROR_def MAX_RETRIES_def number_text)

lemma slice_last_suffix:
  "suffix (slice_last n xs) xs" "length (slice_last n xs) = min n (length xs)"
  by (auto simp: slice_last_def suffix_drop)

lemma render_click_entry:
  \<open>0 \<le> i \<Longrightarrow> i < 10 \<Longrightarrow> render_entry (click_entry i)
     = ''Iteration '' @ [digit_char (nat i)] @ '': Tool Call: click({}) Tool Result: {"ok":true}''\<close>
  by (simp add: click_entry_def render_entry_def render_call_def number_toString_def
      decimal_digits_small)

text \<open>
  Claim C7. When the rendered history exceeds the token limit and the summarisation
  sub-call throws, \<open>buildExecutionHistoryContext\<close> still returns (its result type has no
  error) and leaves the history as it was. The text it returns is made of the last five
  entries of the history (all of them when there are fewer), each in full: a tool call
  as its iteration number, the tool name, the arguments as JSON and the result; a summary
  record under its heading; the entries separated by an empty line.
\<close>

theorem summarization_failure_falls_back:
  assumes "executionHistory s \<noteq> []"
    and "real (countTokens e (render_history (executionHistory s))) > tokenLimit"
    and "fst (summarizeExecutionHistory e (render_history (executionHistory s)) task tokenLimit s)
           = Inl err"
  shows "\<exists>recent.
           buildExecutionHistoryContext e tokenLimit task s =
             (join [CHR 0x0A, CHR 0x0A]
                (map (\<lambda>en.
                   if summary en \<noteq> None \<and> summary en \<noteq> Some [] then
                     ''=== ITERATIONS 1-'' @ number_toString (iteration en) @ '' SUMMARY ===''
                       @ [CHR 0x0A] @ the (summary en)
                   else
                     ''Iteration '' @ number_toString (iteration en) @ '': Tool Call: ''
                       @ (case tool en of Some t \<Rightarrow> t | None \<Rightarrow> ''undefined'')
                       @ ''('' @ (case args en of Some a \<Rightarrow> JSON_stringify a
                                  | None \<Rightarrow> ''undefined'')
                       @ '') Tool Result: ''
                       @ (case result en of Some x \<Rightarrow> x | None \<Rightarrow> ''undefined''))
                 recent),
              s\<lparr>tick := tick s + 1\<rparr>)
         \<and> suffix recent (executionHistory s)
         \<and> length recent = min 5 (length (executionHistory s))"
proof -
  let ?recent = "slice_last 5 (executionHistory s)"
  have r: "render_entry =
      (\<lambda>en. if summary en \<noteq> None \<and> summary en \<noteq> Some [] then
                     ''=== ITERATIONS 1-'' @ number_toString (iteration en) @ '' SUMMARY ===''
                       @ [CHR 0x0A] @ the (summary en)
                   else
                     ''Iteration '' @ number_toString (iteration en) @ '': Tool Call: ''
                       @ (case tool en of Some t \<Rightarrow> t | None \<Rightarrow> ''undefined'')
                       @ ''('' @ (case args en of Some a \<Rightarrow> JSON_stringify a
                                  | None \<Rightarrow> ''undefined'')
                       @ '') Tool Result: ''
                       @ (case result en of Some x \<Rightarrow> x | None \<Rightarrow> ''undefined''))"
    by (rule ext) (simp add: render_entry_def render_call_def split: option.splits)
  have "buildExecutionHistoryContext e tokenLimit task s =
           (render_history ?recent, s\<lparr>tick := tick s + 1\<rparr>)"
    using assms
    by (auto simp: buildExecutionHistoryContext_def summarizeExecutionHistory_def Let_def
        split: sum.splits)
  then show ?thesis
    unfolding render_history_def r using slice_last_suffix [of 5 "executionHistory s"]
    by blast
qed

text \<open>Claim C7, at a history of six tool calls: the text returned is that of the last
  five.\<close>

theorem summarization_failure_falls_back_witness:
  \<open>executionHistory after_varied_history \<noteq> []
   \<and> real (countTokens failing_summarizer_env
             (render_history (executionHistory after_varied_history))) > 50
   \<and> fst (summarizeExecutionHistory failing_summarizer_env
        (render_history (executionHistory after_varied_history)) ''buy the book'' 50
        after_varied_history)
      = Inl (Error ''model unavailable'')
   \<and> buildExecutionHistoryContext failing_summarizer_env 50 ''buy the book'' after_varied_history =
        (''Iteration 2: Tool Call: click({"nodeId":12}) Tool Result: {"ok":true}''
           @ [CHR 0x0A, CHR 0x0A]
           @ ''Iteration 3: Tool Call: type({"nodeId":7,"text":"say '' @ [CHR 0x5C] @ ''"hi''
           @ [CHR 0x5C] @ ''""}) Tool Result: {"ok":true}''
           @ [CHR 0x0A, CHR 0x0A]
           @ ''Iteration 4: Tool Call: extract({"format":{"fields":["title","price"]},"ratio":2.5,"strict":false}) Tool Result: {"ok":false,"error":"Tool execution failed: page closed"}''
           @ [CHR 0x0A, CHR 0x0A]
           @ ''Iteration 5: Tool Call: scroll({"1":false,"2":true,"by":-300,"to":null}) Tool Result: {"ok":true}''
           @ [CHR 0x0A, CHR 0x0A]
           @ ''Iteration 6: Tool Call: zoom({}) Tool Result: {"ok":false,"error":"Unknown tool: zoom"}'',
         after_varied_history\<lparr>tick := 7\<rparr>)\<close>
proof -
  let ?s = after_varied_history
  have hist: "executionHistory ?s = varied_history"
    by (simp add: after_varied_history_def)
  have h1: "executionHistory ?s \<noteq> []"
    by (simp add: hist varied_history_def)
  have h2: "real (countTokens failing_summarizer_env (render_history (executionHistory ?s))) > 50"
    by (simp add: hist failing_summarizer_env_def demo_env_def render_history_def
        varied_history_def render_entry_def render_call_def number_text)
  have h3: "fst (summarizeExecutionHistory failing_summarizer_env
        (render_history (executionHistory ?s)) ''buy the book'' 50 ?s)
      = Inl (Error ''model unavailable'')"
    by (simp add: summarizeExecutionHistory_def failing_summarizer_env_def)
  have tk: "tick ?s + 1 = 7"
    by (simp add: after_varied_history_def fresh_state_def)
  have recent: "recent = drop 1 varied_history"
    if "suffix recent (executionHistory ?s)"
      and "length recent = min 5 (length (executionHistory ?s))" for recent
  proof -
    from that(1) obtain ys where "executionHistory ?s = ys @ recent"
      by (rule suffixE)
    then have ys: "varied_history = ys @ recent"
      by (simp only: hist)
    have l6: "length varied_history = 6"
      by (simp add: varied_history_def)
    have "length recent = 5"
      using that(2) l6 unfolding hist by simp
    moreover have "length ys + length recent = 6"
      using l6 unfolding ys by simp
    ultimately have "length ys = 1"
      by simp
    then show ?thesis
      unfolding ys by simp
  qed
  let ?text = "\<lambda>en. if summary en \<noteq> None \<and> summary en \<noteq> Some [] then
                     ''=== ITERATIONS 1-'' @ number_toString (iteration en) @ '' SUMMARY ===''
                       @ [CHR 0x0A] @ the (summary en)
                   else
                     ''Iteration '' @ number_toString (iteration en) @ '': Tool Call: ''
                       @ (case tool en of Some t \<Rightarrow> t | None \<Rightarrow> ''undefined'')
                       @ ''('' @ (case args en of Some a \<Rightarrow> JSON_stringify a
                                  | None \<Rightarrow> ''undefined'')
                       @ '') Tool Result: ''
                       @ (case result en of Some x \<Rightarrow> x | None \<Rightarrow> ''undefined'')"
  from summarization_failure_falls_back [OF h1 h2 h3] obtain rc where
    b: "buildExecutionHistoryContext failing_summarizer_env 50 ''buy the book'' ?s =
          (join [CHR 0x0A, CHR 0x0A] (map ?text rc), ?s\<lparr>tick := tick ?s + 1\<rparr>)"
    and su: "suffix rc (executionHistory ?s)"
    and le: "length rc = min 5 (length (executionHistory ?s))"
    by blast
  have rc: "rc = drop 1 varied_history"
    using recent [OF su le] .
  have "buildExecutionHistoryContext failing_summarizer_env 50 ''buy the book'' ?s =
          (join [CHR 0x0A, CHR 0x0A] (map ?text (drop 1 varied_history)), ?s\<lparr>tick := 7\<rparr>)"
    using b unfolding rc tk .
  then show ?thesis
    using h1 h2 h3
    by (simp add: varied_history_def number_text own_properties_eval array_index_def
        json_quote_def json_escape_char_def Let_def)
qed

lemma render_summary_entry:
  assumes "sm \<noteq> []"
  shows "render_history [\<lparr>iteration = i, tool = None, args = None, result = None,
                 summary = Some sm, timestamp = ts\<rparr>]
         = ''=== ITERATIONS 1-'' @ number_toString i @ '' SUMMARY ==='' @ [CHR 0x0A] @ sm"
  using assms by (simp add: render_history_def render_entry_def)

text \<open>
  Claim C4, as amended. When the rendered history exceeds the token limit and the
  summarisation sub-call succeeds, one pass replaces the whole entry sequence by a
  single summary record whose iteration number is the number of the previous iteration,
  and returns the summary text; a non-empty summary renders under a heading that names
  the iterations 1 to that number. The summary is what the summarisation model gave when
  asked with a budget of \<open>max 100 limit\<close> tokens, rounded down; nothing compares its
  size with the limit.
\<close>

theorem compaction_replaces_history:
  assumes "executionHistory s \<noteq> []"
    and "real (countTokens e (render_history (executionHistory s))) > tokenLimit"
    and "fst (summarizeExecutionHistory e (render_history (executionHistory s)) task tokenLimit s)
           = Inr sm"
  shows "\<exists>s'. buildExecutionHistoryContext e tokenLimit task s = (sm, s')
           \<and> executionHistory s' =
               [\<lparr>iteration = iterations s - 1, tool = None, args = None, result = None,
                 summary = Some sm, timestamp = dateNow e (tick s + 1)\<rparr>]
           \<and> (sm \<noteq> [] \<longrightarrow> render_history (executionHistory s') =
                ''=== ITERATIONS 1-'' @ number_toString (iterations s - 1) @ '' SUMMARY ===''
                  @ [CHR 0x0A] @ sm)
           \<and> (\<exists>c. summarizer_llm e (tick s) \<lfloor>max 100 tokenLimit\<rfloor> task
                      (render_history (executionHistory s)) = Inr c
                 \<and> sm = (case c of Some x \<Rightarrow> x | None \<Rightarrow> []))"
proof -
  let ?h = "render_history (executionHistory s)"
  have m: "(if tokenLimit < 100 then 100 else tokenLimit) = max 100 tokenLimit"
    by (simp add: max_def)
  obtain c where c: "summarizer_llm e (tick s) \<lfloor>max 100 tokenLimit\<rfloor> task ?h = Inr c"
    and sm: "sm = (case c of Some x \<Rightarrow> x | None \<Rightarrow> [])"
    using assms(3) unfolding summarizeExecutionHistory_def Let_def m
    by (auto split: sum.splits)
  have "summarizeExecutionHistory e ?h task tokenLimit s = (Inr sm, s\<lparr>tick := tick s + 1\<rparr>)"
    unfolding summarizeExecutionHistory_def Let_def m using c sm by simp
  then have b: "buildExecutionHistoryContext e tokenLimit task s =
      (sm, s\<lparr>tick := tick s + 1,
             executionHistory := [summary_entry e sm (s\<lparr>tick := tick s + 1\<rparr>)]\<rparr>)"
    using assms(1,2) by (simp add: buildExecutionHistoryContext_def Let_def)
  have r: "sm \<noteq> [] \<longrightarrow> render_history [summary_entry e sm (s\<lparr>tick := tick s + 1\<rparr>)] =
      ''=== ITERATIONS 1-'' @ number_toString (iterations s - 1) @ '' SUMMARY ===''
        @ [CHR 0x0A] @ sm"
    using render_summary_entry by (simp add: summary_entry_def)
  show ?thesis
    unfolding b using c sm r by (simp add: summary_entry_def)
qed

theorem compaction_replaces_history_witness:
  "executionHistory after_six_clicks \<noteq> []
   \<and> real (countTokens demo_env (render_history (executionHistory after_six_clicks))) > 50
   \<and> fst (summarizeExecutionHistory demo_env
        (render_history (executionHistory after_six_clicks)) ''open the page'' 50 after_six_clicks)
      = Inr ''Clicked twice; nothing else happened.''
   \<and> (\<exists>s'. buildExecutionHistoryContext demo_env 50 ''open the page'' after_six_clicks =
              (''Clicked twice; nothing else happened.'', s')
           \<and> executionHistory s' =
               [\<lparr>iteration = 6, tool = None, args = None, result = None,
                 summary = Some ''Clicked twice; nothing else happened.'', timestamp = 7000\<rparr>]
           \<and> render_history (executionHistory s') =
               ''=== ITERATIONS 1-6 SUMMARY ==='' @ [CHR 0x0A]
                 @ ''Clicked twice; nothing else happened.'')"
proof -
  have h1: "executionHistory after_six_clicks \<noteq> []"
    by (simp add: after_six_clicks_def fresh_state_def)
  have h2: "real (countTokens demo_env (render_history (executionHistory after_six_clicks))) > 50"
    by (simp add: after_six_clicks_def fresh_state_def demo_env_def
        render_history_def render_click_entry)
  have h3: "fst (summarizeExecutionHistory demo_env
        (render_history (executionHistory after_six_clicks)) ''open the page'' 50 after_six_clicks)
      = Inr ''Clicked twice; nothing else happened.''"
    by (simp add: summarizeExecutionHistory_def demo_env_def)
  have v: "iterations after_six_clicks - 1 = 6"
    "dateNow demo_env (tick after_six_clicks + 1) = 7000"
    by (simp_all add: after_six_clicks_def fresh_state_def demo_env_def)
  have n: "number_toString 6 = ''6''"
    by (simp add: number_text)
  have ne: "''Clicked twice; nothing else happened.'' \<noteq> []"
    by simp
  show ?thesis
    using h1 h2 h3 ne compaction_replaces_history [OF h1 h2 h3] unfolding v n by auto
qed

text \<open>
  Claim C4 as stated fails on the size: with a limit of 8 tokens the history of one
  click renders to 14 tokens, the summary is asked for with the budget raised to 100,
  and the summary returned has 9 tokens.
\<close>

theorem compaction_exceeds_limit_counterexample:
  "real (countTokens demo_env (render_history (executionHistory after_one_click))) > 8
   \<and> \<not> real (countTokens demo_env
           (fst (buildExecutionHistoryContext demo_env 8 ''open the page'' after_one_click))) \<le> 8"
proof -
  have c: "countTokens demo_env = (\<lambda>text. length text div 4)"
    by (simp add: demo_env_def)
  have s: "summarizer_llm demo_env =
      (\<lambda>t budget task history. Inr (Some ''Clicked twice; nothing else happened.''))"
    by (simp add: demo_env_def)
  have r: "render_history (executionHistory after_one_click) = render_entry (click_entry 1)"
    by (simp add: after_one_click_def fresh_state_def render_history_def)
  have h: "executionHistory after_one_click \<noteq> []"
    by (simp add: after_one_click_def fresh_state_def)
  show ?thesis
    using h
    by (simp add: buildExecutionHistoryContext_def summarizeExecutionHistory_def Let_def
        r render_click_entry c s)
qed

subsection \<open>The streaming filter\<close>




lemma stream_chunk_locals:
  assumes "stream_chunk e c l s = (l', s')"
  shows "accumulatedChunk l' =
           Some (case accumulatedChunk l of None \<Rightarrow> c | Some a \<Rightarrow> chunk_concat e a c)"
    and "accumulatedText l' = accumulatedText l @ chunk_text c"
  using assms
  by (auto simp: stream_chunk_def detect_prohibited_def forward_text_def
      chunk_text_def Let_def split: chunk_content.splits if_splits option.splits prod.splits)

lemma stream_loop_locals:
  assumes "stream_loop e cs l s = (Inr l', s')"
  shows "accumulatedChunk l' = aggregate e (accumulatedChunk l) cs
         \<and> accumulatedText l' = accumulatedText l @ stream_text cs"
  using assms
proof (induction cs arbitrary: l s)
  case Nil
  then show ?case by (simp add: aggregate_def stream_text_def)
next
  case (Cons c cs)
  obtain l1 s1 where d: "stream_chunk e c l (s\<lparr>tick := tick s + 1\<rparr>) = (l1, s1)"
    by force
  have "stream_loop e cs l1 s1 = (Inr l', s')"
    using Cons.prems d by (simp add: Let_def split: option.splits)
  from Cons.IH [OF this] stream_chunk_locals [OF d]
  show ?case
    by (simp add: aggregate_def stream_text_def)
qed







lemma stream_finish_facts:
  assumes "stream_finish l s = (m, s')"
  shows "tool_calls m = (case accumulatedChunk l of None \<Rightarrow> [] | Some a \<Rightarrow> chunk_tool_calls a)"
    and "errors s' = errors s"
    and "hasProhibitedContent l \<Longrightarrow> s' = s"
  using assms
  by (auto simp: stream_finish_def Let_def publish_with_id_def publish_def
      split: option.splits if_splits)





lemmas stream_eval = invokeLLMWithStreaming_def stream_init_def stream_chunk_def
  detect_prohibited_def forward_text_def stream_finish_def publish_with_id_def publish_def
  checkIfAborted_def aborted_def PROHIBITED_TAGS_def Let_def




subsection \<open>What an iteration leaves untouched\<close>



lemma build_frame:
  assumes "buildExecutionHistoryContext e l t s = (c, s')"
  shows "consecutiveNoToolCalls s' = consecutiveNoToolCalls s"
    and "toolInvocations s' = toolInvocations s"
    and "llmInvocations s' = llmInvocations s"
    and "errors s' = errors s"
    and "published s' = published s"
    and "humanInputResponse s' = humanInputResponse s"
    and "observations s' = observations s"
    and "tick s \<le> tick s'"
    and "executionHistory s = [] \<Longrightarrow> s' = s"
  using assms
  by (auto simp: buildExecutionHistoryContext_def summarizeExecutionHistory_def Let_def
      split: if_splits sum.splits)

lemma stream_chunk_frame:
  assumes "stream_chunk e c l s = (l', s')"
  shows "consecutiveNoToolCalls s' = consecutiveNoToolCalls s"
    and "toolInvocations s' = toolInvocations s"
    and "llmInvocations s' = llmInvocations s"
    and "executionHistory s' = executionHistory s"
    and "humanInputResponse s' = humanInputResponse s"
    and "observations s' = observations s"
    and "tick s' = tick s"
    and "errors s \<le> errors s'"
  using assms
  by (auto simp: stream_chunk_def detect_prohibited_def forward_text_def Let_def
      publish_with_id_def publish_def
      split: chunk_content.splits if_splits option.splits)

lemma stream_loop_frame:
  assumes "stream_loop e cs l s = (r, s')"
  shows "consecutiveNoToolCalls s' = consecutiveNoToolCalls s
       \<and> toolInvocations s' = toolInvocations s
       \<and> llmInvocations s' = llmInvocations s
       \<and> executionHistory s' = executionHistory s
       \<and> humanInputResponse s' = humanInputResponse s
       \<and> observations s' = observations s
       \<and> tick s \<le> tick s' \<and> errors s \<le> errors s'"
  using assms
proof (induction cs arbitrary: l s)
  case Nil
  then show ?case by simp
next
  case (Cons c cs)
  obtain l1 s1 where d: "stream_chunk e c l (s\<lparr>tick := tick s + 1\<rparr>) = (l1, s1)"
    by force
  show ?case
  proof (cases "checkIfAborted e (s\<lparr>tick := tick s + 1\<rparr>)")
    case None
    then have "stream_loop e cs l1 s1 = (r, s')"
      using Cons.prems d by (simp add: Let_def)
    from Cons.IH [OF this] stream_chunk_frame [OF d] show ?thesis by simp
  next
    case (Some err)
    then show ?thesis using Cons.prems by (auto simp: Let_def)
  qed
qed

lemma stream_loop_returns:
  assumes "abortAt e = None"
  shows "\<exists>l' s'. stream_loop e cs l s = (Inr l', s')"
proof (induction cs arbitrary: l s)
  case Nil
  then show ?case by simp
next
  case (Cons c cs)
  obtain l1 s1 where d: "stream_chunk e c l (s\<lparr>tick := tick s + 1\<rparr>) = (l1, s1)"
    by force
  show ?case
    using Cons.IH [of l1 s1] d assms by (simp add: Let_def checkIfAborted_def aborted_def)
qed

lemma stream_finish_frame:
  assumes "stream_finish l s = (m, s')"
  shows "consecutiveNoToolCalls s' = consecutiveNoToolCalls s
       \<and> toolInvocations s' = toolInvocations s
       \<and> llmInvocations s' = llmInvocations s
       \<and> executionHistory s' = executionHistory s
       \<and> humanInputResponse s' = humanInputResponse s
       \<and> observations s' = observations s
       \<and> tick s' = tick s \<and> errors s' = errors s"
  using assms
  by (auto simp: stream_finish_def Let_def publish_with_id_def publish_def
      split: option.splits if_splits)

lemma invoke_frame:
  assumes "invokeLLMWithStreaming e q s = (r, s')"
  shows "consecutiveNoToolCalls s' = consecutiveNoToolCalls s
       \<and> toolInvocations s' = toolInvocations s
       \<and> llmInvocations s' = llmInvocations s + 1
       \<and> executionHistory s' = executionHistory s
       \<and> humanInputResponse s' = humanInputResponse s
       \<and> observations s' = observations s
       \<and> tick s \<le> tick s' \<and> errors s \<le> errors s'"
proof (cases "llm_stream e (llmInvocations s)")
  case (StreamFails chunks err)
  obtain r1 s1 where d: "stream_loop e chunks (stream_init q)
      (s\<lparr>llmInvocations := llmInvocations s + 1, llmReminders := llmReminders s @ [q]\<rparr>)
        = (r1, s1)"
    by force
  from stream_loop_frame [OF d] show ?thesis
    using StreamFails d assms by (cases r1) (auto simp: invokeLLMWithStreaming_def)
next
  case (Stream chunks)
  obtain r1 s1 where d: "stream_loop e chunks (stream_init q)
      (s\<lparr>llmInvocations := llmInvocations s + 1, llmReminders := llmReminders s @ [q]\<rparr>)
        = (r1, s1)"
    by force
  note f1 = stream_loop_frame [OF d]
  show ?thesis
  proof (cases r1)
    case (Inl err)
    then show ?thesis
      using Stream d f1 assms by (auto simp: invokeLLMWithStreaming_def)
  next
    case (Inr l)
    obtain msg s2 where f: "stream_finish l s1 = (msg, s2)"
      by force
    from stream_finish_frame [OF f] f1 show ?thesis
      using Stream d Inr f assms by (auto simp: invokeLLMWithStreaming_def)
  qed
qed

text \<open>An iteration in which the model invocation throws.\<close>

lemma runAgent_model_throws:
  assumes "llm_stream e (llmInvocations s) = StreamFails cs err"
  shows "\<exists>s'. runAgent e m task s = (\<lparr>doneToolCalled = False, requiresHumanInput = False\<rparr>, s')
           \<and> iterations s' = iterations s
           \<and> llmInvocations s' = llmInvocations s + 1
           \<and> consecutiveNoToolCalls s' = consecutiveNoToolCalls s
           \<and> toolInvocations s' = toolInvocations s
           \<and> errors s < errors s'"
proof -
  obtain c s1 where b: "buildExecutionHistoryContext e (historyTokenLimit e m) task
      (s\<lparr>observations := observations s + 1\<rparr>) = (c, s1)"
    by force
  note bf = build_frame [OF b]
  have i1: "iterations s1 = iterations s"
    using arg_cong [OF b, of "\<lambda>p. iterations (snd p)"] by simp
  obtain r1 s2 where d: "stream_loop e cs (stream_init [])
      (s1\<lparr>llmInvocations := llmInvocations s1 + 1, llmReminders := llmReminders s1 @ [[]]\<rparr>)
        = (r1, s2)"
    by force
  obtain err1 where v: "invokeLLMWithStreaming e [] s1 = (Inl err1, s2)"
    using assms bf(3) d by (cases r1) (auto simp: invokeLLMWithStreaming_def)
  note vf = invoke_frame [OF v]
  have i2: "iterations s2 = iterations s"
    using arg_cong [OF v, of "\<lambda>p. iterations (snd p)"] i1 by simp
  have "runAgent e m task s =
      (\<lparr>doneToolCalled = False, requiresHumanInput = False\<rparr>, s2\<lparr>errors := errors s2 + 1\<rparr>)"
    using b v by (simp add: runAgent_def runAgent_try_def)
  then show ?thesis
    using bf vf i2 by simp
qed

lemma runAgent_no_tool_calls:
  assumes "no_tool_calls e (llmInvocations s)" and "abortAt e = None"
  shows "\<exists>s'. runAgent e m task s = (\<lparr>doneToolCalled = False, requiresHumanInput = False\<rparr>, s')
           \<and> iterations s' = iterations s
           \<and> llmInvocations s' = llmInvocations s + 1
           \<and> consecutiveNoToolCalls s' = consecutiveNoToolCalls s + 1
           \<and> toolInvocations s' = toolInvocations s"
proof -
  obtain c s1 where b: "buildExecutionHistoryContext e (historyTokenLimit e m) task
      (s\<lparr>observations := observations s + 1\<rparr>) = (c, s1)"
    by force
  note bf = build_frame [OF b]
  have i1: "iterations s1 = iterations s"
    using arg_cong [OF b, of "\<lambda>p. iterations (snd p)"] by simp
  obtain cs where st: "llm_stream e (llmInvocations s1) = Stream cs"
    and ag: "case aggregate e None cs of None \<Rightarrow> True | Some a \<Rightarrow> chunk_tool_calls a = []"
    using assms(1) bf(3) by (auto simp: no_tool_calls_def split: stream_outcome.splits)
  obtain l2 s2 where lp: "stream_loop e cs (stream_init [])
      (s1\<lparr>llmInvocations := llmInvocations s1 + 1, llmReminders := llmReminders s1 @ [[]]\<rparr>)
        = (Inr l2, s2)"
    using stream_loop_returns [OF assms(2)] by blast
  obtain msg s3 where fin: "stream_finish l2 s2 = (msg, s3)"
    by force
  have inv: "invokeLLMWithStreaming e [] s1 = (Inr (msg, queuedReminders l2), s3)"
    using st lp fin by (simp add: invokeLLMWithStreaming_def)
  have "accumulatedChunk l2 = aggregate e None cs"
    using stream_loop_locals [OF lp] by (simp add: stream_init_def)
  then have nc: "tool_calls msg = []"
    using stream_finish_facts(1) [OF fin] ag by (auto split: option.splits)
  note vf = invoke_frame [OF inv]
  have i3: "iterations s3 = iterations s"
    using arg_cong [OF inv, of "\<lambda>p. iterations (snd p)"] i1 by simp
  let ?s4 = "s3\<lparr>consecutiveNoToolCalls := consecutiveNoToolCalls s3 + 1\<rparr>"
  have "runAgent e m task s =
      (\<lparr>doneToolCalled = False, requiresHumanInput = False\<rparr>,
       if consecutiveNoToolCalls ?s4 \<ge> MAX_RETRIES then ?s4\<lparr>errors := errors ?s4 + 1\<rparr> else ?s4)"
    using b inv nc by (simp add: runAgent_def runAgent_try_def Let_def)
  then show ?thesis
    using bf vf i3 by auto
qed


subsection \<open>Runs that make no progress\<close>

lemma executeDynamic_loop_no_progress:
  assumes step: "\<And>s. I s \<Longrightarrow>
      \<exists>s'. runDynamicAgent e task (s\<lparr>iterations := iterations s + 1\<rparr>)
             = (\<lparr>doneToolCalled = False, requiresHumanInput = False\<rparr>, s')
           \<and> iterations s' = iterations s + 1 \<and> I s'"
    and na: "abortAt e = None"
    and "I s" and "iterations s \<le> MAX_UNIFIED_ITERATIONS"
  shows "\<exists>s'. executeDynamic_loop e task s = (Inr False, s')
           \<and> iterations s' = MAX_UNIFIED_ITERATIONS \<and> I s'"
  using assms(3,4)
proof (induction "nat (MAX_UNIFIED_ITERATIONS - iterations s)" arbitrary: s)
  case 0
  then have "\<not> iterations s < MAX_UNIFIED_ITERATIONS" "iterations s = MAX_UNIFIED_ITERATIONS"
    by simp_all
  then show ?case
    using "0.prems"(1) by (subst executeDynamic_loop.simps) simp
next
  case (Suc n)
  then have lt: "iterations s < MAX_UNIFIED_ITERATIONS"
    by simp
  from step [OF Suc.prems(1)] obtain s1 where
    r: "runDynamicAgent e task (s\<lparr>iterations := iterations s + 1\<rparr>)
          = (\<lparr>doneToolCalled = False, requiresHumanInput = False\<rparr>, s1)"
    and i1: "iterations s1 = iterations s + 1" and I1: "I s1"
    by blast
  have "n = nat (MAX_UNIFIED_ITERATIONS - iterations s1)"
    using Suc.hyps(2) i1 by simp
  from Suc.hyps(1) [OF this I1] i1 lt obtain s' where
    "executeDynamic_loop e task s1 = (Inr False, s')"
    "iterations s' = MAX_UNIFIED_ITERATIONS" "I s'"
    by auto
  moreover have "executeDynamic_loop e task s = executeDynamic_loop e task s1"
    using lt r na
    by (subst executeDynamic_loop.simps) (simp add: checkIfAborted_def aborted_def)
  ultimately show ?case by simp
qed

lemma executeDynamic_after_no_progress:
  assumes "executeDynamic_loop e task (publishMessage ''Starting unified task execution...'' Thinking s)
             = (Inr False, s')"
    and "iterations s' = MAX_UNIFIED_ITERATIONS"
  shows "executeDynamic e task s =
     (Inl MAX_ITERATIONS_ERROR,
      publishMessage ''Task did not complete within 30 iterations'' ErrorMessage s')"
  using assms
  by (simp add: executeDynamic_def checkIterationLimit_def MAX_UNIFIED_ITERATIONS_def number_text)

lemma no_tool_calls_runs_to_cap:
  assumes silent: "\<forall>n. no_tool_calls e n" and na: "abortAt e = None" and i0: "iterations s = 0"
  shows "\<exists>s'. executeDynamic e task s = (Inl MAX_ITERATIONS_ERROR, s')
           \<and> iterations s' = 30
           \<and> llmInvocations s' = llmInvocations s + 30
           \<and> consecutiveNoToolCalls s' = consecutiveNoToolCalls s + 30
           \<and> toolInvocations s' = toolInvocations s"
proof -
  let ?s0 = "publishMessage ''Starting unified task execution...'' Thinking s"
  define I where "I = (\<lambda>x::agent_state. 0 \<le> iterations x
      \<and> llmInvocations x = llmInvocations s + nat (iterations x)
      \<and> consecutiveNoToolCalls x = consecutiveNoToolCalls s + iterations x
      \<and> toolInvocations x = toolInvocations s)"
  have I0: "I ?s0"
    using i0 by (simp add: I_def publishMessage_def publish_def)
  have step: "\<exists>s'. runDynamicAgent e task (x\<lparr>iterations := iterations x + 1\<rparr>)
             = (\<lparr>doneToolCalled = False, requiresHumanInput = False\<rparr>, s')
           \<and> iterations s' = iterations x + 1 \<and> I s'" if "I x" for x
  proof -
    from runAgent_no_tool_calls [of e "x\<lparr>iterations := iterations x + 1\<rparr>" Dynamic task] silent na
    obtain s' where "runAgent e Dynamic task (x\<lparr>iterations := iterations x + 1\<rparr>)
        = (\<lparr>doneToolCalled = False, requiresHumanInput = False\<rparr>, s')"
      "iterations s' = iterations x + 1" "llmInvocations s' = llmInvocations x + 1"
      "consecutiveNoToolCalls s' = consecutiveNoToolCalls x + 1"
      "toolInvocations s' = toolInvocations x"
      by auto
    then show ?thesis
      using that by (auto simp: I_def runDynamicAgent_def nat_add_distrib)
  qed
  have "iterations ?s0 \<le> MAX_UNIFIED_ITERATIONS"
    using i0 by (simp add: MAX_UNIFIED_ITERATIONS_def)
  from executeDynamic_loop_no_progress [of I e task, OF step na I0 this]
  obtain s' where l: "executeDynamic_loop e task ?s0 = (Inr False, s')"
    and i: "iterations s' = MAX_UNIFIED_ITERATIONS" and I': "I s'"
    by blast
  show ?thesis
    using executeDynamic_after_no_progress [OF l i] i I'
    by (simp add: I_def MAX_UNIFIED_ITERATIONS_def publishMessage_def publish_def)
qed

lemma model_failures_run_to_cap:
  assumes fails: "\<forall>n. \<exists>cs err. llm_stream e n = StreamFails cs err"
    and na: "abortAt e = None" and i0: "iterations s = 0"
  shows "\<exists>s'. executeDynamic e task s = (Inl MAX_ITERATIONS_ERROR, s')
           \<and> iterations s' = 30
           \<and> llmInvocations s' = llmInvocations s + 30
           \<and> errors s + 30 \<le> errors s'
           \<and> consecutiveNoToolCalls s' = consecutiveNoToolCalls s
           \<and> toolInvocations s' = toolInvocations s"
proof -
  let ?s0 = "publishMessage ''Starting unified task execution...'' Thinking s"
  define I where "I = (\<lambda>x::agent_state. 0 \<le> iterations x
      \<and> llmInvocations x = llmInvocations s + nat (iterations x)
      \<and> errors s + nat (iterations x) \<le> errors x
      \<and> consecutiveNoToolCalls x = consecutiveNoToolCalls s
      \<and> toolInvocations x = toolInvocations s)"
  have I0: "I ?s0"
    using i0 by (simp add: I_def publishMessage_def publish_def)
  have step: "\<exists>s'. runDynamicAgent e task (x\<lparr>iterations := iterations x + 1\<rparr>)
             = (\<lparr>doneToolCalled = False, requiresHumanInput = False\<rparr>, s')
           \<and> iterations s' = iterations x + 1 \<and> I s'" if "I x" for x
  proof -
    obtain cs err where "llm_stream e (llmInvocations (x\<lparr>iterations := iterations x + 1\<rparr>))
        = StreamFails cs err"
      using fails by blast
    from runAgent_model_throws [OF this, of Dynamic task]
    obtain s' where "runAgent e Dynamic task (x\<lparr>iterations := iterations x + 1\<rparr>)
        = (\<lparr>doneToolCalled = False, requiresHumanInput = False\<rparr>, s')"
      "iterations s' = iterations x + 1" "llmInvocations s' = llmInvocations x + 1"
      "consecutiveNoToolCalls s' = consecutiveNoToolCalls x"
      "toolInvocations s' = toolInvocations x" "errors x < errors s'"
      by auto
    then show ?thesis
      using that by (auto simp: I_def runDynamicAgent_def nat_add_distrib)
  qed
  have "iterations ?s0 \<le> MAX_UNIFIED_ITERATIONS"
    using i0 by (simp add: MAX_UNIFIED_ITERATIONS_def)
  from executeDynamic_loop_no_progress [of I e task, OF step na I0 this]
  obtain s' where l: "executeDynamic_loop e task ?s0 = (Inr False, s')"
    and i: "iterations s' = MAX_UNIFIED_ITERATIONS" and I': "I s'"
    by blast
  show ?thesis
    using executeDynamic_after_no_progress [OF l i] i I'
    by (simp add: I_def MAX_UNIFIED_ITERATIONS_def publishMessage_def publish_def)
qed

text \<open>
  Claim C2 (the code differs). The third consecutive turn without tool calls throws
  inside the \<^verbatim>\<open>try\<close> block whose \<^verbatim>\<open>catch\<close> returns an ordinary result, so the run goes
  on: with a model that never returns a tool call it makes 30 iterations and 30 model
  invocations and fails with the iteration-limit error, the counter of empty turns
  standing at 30.
\<close>

theorem stall_reaches_iteration_cap:
  "fst (executeDynamic demo_env ''open the page'' fresh_state)
     = Inl (Error ''Maximum unified iterations (30) reached'')
   \<and> iterations (snd (executeDynamic demo_env ''open the page'' fresh_state)) = 30
   \<and> llmInvocations (snd (executeDynamic demo_env ''open the page'' fresh_state)) = 30
   \<and> consecutiveNoToolCalls (snd (executeDynamic demo_env ''open the page'' fresh_state)) = 30"
proof -
  have "\<forall>n. no_tool_calls demo_env n"
    by (simp add: no_tool_calls_def demo_env_def aggregate_def)
  moreover have "abortAt demo_env = None"
    by (simp add: demo_env_def)
  moreover have "iterations fresh_state = 0"
    by (simp add: fresh_state_def)
  ultimately obtain s' where
    "executeDynamic demo_env ''open the page'' fresh_state = (Inl MAX_ITERATIONS_ERROR, s')"
    "iterations s' = 30" "llmInvocations s' = llmInvocations fresh_state + 30"
    "consecutiveNoToolCalls s' = consecutiveNoToolCalls fresh_state + 30"
    using no_tool_calls_runs_to_cap [of demo_env fresh_state "''open the page''"] by blast
  then show ?thesis
    by (simp add: MAX_ITERATIONS_ERROR_text fresh_state_def)
qed


subsection \<open>Completion\<close>

lemma deliver_frame:
  "llmInvocations (deliver e rid s) = llmInvocations s"
  "toolInvocations (deliver e rid s) = toolInvocations s"
  "consecutiveNoToolCalls (deliver e rid s) = consecutiveNoToolCalls s"
  "executionHistory (deliver e rid s) = executionHistory s"
  "tick (deliver e rid s) = tick s"
  "published (deliver e rid s) = published s"
proof -
  have "(\<lambda>x. (llmInvocations x, toolInvocations x, consecutiveNoToolCalls x, executionHistory x,
           tick x, published x))
      (foldl (\<lambda>st ev. if requestId ev = rid then st\<lparr>humanInputResponse := Some ev\<rparr> else st) s evs)
    = (llmInvocations s, toolInvocations s, consecutiveNoToolCalls s, executionHistory s,
         tick s, published s)" for evs
    by (induction evs arbitrary: s) auto
  then show "llmInvocations (deliver e rid s) = llmInvocations s"
    "toolInvocations (deliver e rid s) = toolInvocations s"
    "consecutiveNoToolCalls (deliver e rid s) = consecutiveNoToolCalls s"
    "executionHistory (deliver e rid s) = executionHistory s"
    "tick (deliver e rid s) = tick s"
    "published (deliver e rid s) = published s"
    by (simp_all add: deliver_def)
qed

lemma wait_loop_frame:
  assumes "waitForHumanInput_loop e rid el s = (h, s')"
  shows "llmInvocations s' = llmInvocations s \<and> toolInvocations s' = toolInvocations s
       \<and> consecutiveNoToolCalls s' = consecutiveNoToolCalls s
       \<and> executionHistory s' = executionHistory s \<and> tick s \<le> tick s'"
  using assms
proof (induction e rid el s rule: waitForHumanInput_loop.induct)
  case (1 e rid elapsed s)
  show ?case
  proof (cases "\<not> aborted e s \<and> humanInputResponse s = None \<and> \<not> elapsed > HUMAN_INPUT_TIMEOUT")
    case True
    then have "waitForHumanInput_loop e rid
        (elapsed + max HUMAN_INPUT_CHECK_INTERVAL (sleepDuration e (tick s)))
        (deliver e rid (s\<lparr>tick := tick s + 1\<rparr>)) = (h, s')"
      using "1.prems" by (subst (asm) waitForHumanInput_loop.simps) simp
    from "1.IH" [OF _ _ _ this] True show ?thesis
      by (simp add: deliver_frame)
  next
    case False
    then show ?thesis
      using "1.prems"
      by (subst (asm) waitForHumanInput_loop.simps)
         (auto simp: publishMessage_def publish_def split: option.splits if_splits)
  qed
qed

lemma handleHumanInput_frame:
  assumes "handleHumanInput e s = (thrown, s')"
  shows "llmInvocations s' = llmInvocations s \<and> toolInvocations s' = toolInvocations s
       \<and> consecutiveNoToolCalls s' = consecutiveNoToolCalls s
       \<and> executionHistory s' = executionHistory s \<and> tick s \<le> tick s'
       \<and> iterations s' = iterations s"
proof -
  obtain h s1 where w: "waitForHumanInput e s = (h, s1)"
    by force
  have f: "llmInvocations s1 = llmInvocations s \<and> toolInvocations s1 = toolInvocations s
       \<and> consecutiveNoToolCalls s1 = consecutiveNoToolCalls s
       \<and> executionHistory s1 = executionHistory s \<and> tick s \<le> tick s1"
    using w wait_loop_frame [of e _ 0 s h s1]
    by (auto simp: waitForHumanInput_def split: option.splits if_splits)
  have "iterations s1 = iterations s"
    using arg_cong [OF w, of "\<lambda>p. iterations (snd p)"] by simp
  then show ?thesis
    using assms w f
    by (auto simp: handleHumanInput_def publishMessage_def publish_def split: if_splits)
qed

lemma handleHumanInput_continues:
  assumes "fst (waitForHumanInput e s) \<noteq> HiAbort"
  shows "handleHumanInput e s =
     (None, (publishMessage MSG_CONTINUING Thinking (snd (waitForHumanInput e s)))
              \<lparr>humanInputResponse := None\<rparr>)"
  using assms by (cases "waitForHumanInput e s") (auto simp: handleHumanInput_def)

lemma runAgent_iterations:
  assumes "runAgent e m task s = (r, s')"
  shows "iterations s' = iterations s"
  using arg_cong [OF assms, of "\<lambda>p. iterations (snd p)"] by simp

text \<open>
  Where a done ends the run. Take a loop about to start iteration k (the counter below
  the cap, the cancellation signal not set) whose agent call returns with
  \<open>doneToolCalled\<close>. In predefined mode the run returns normally after publishing the
  completion message, in the state the iteration left. In dynamic mode the human-input
  block comes first: if the batch did not ask for human input, or the human answered
  done, the run returns normally after the completion message, the iteration counter is
  k, and no model or handler invocation is added to those of iteration k.
\<close>

lemma done_ends_the_loop:
  "(iterations s < MAX_UNIFIED_ITERATIONS \<and> \<not> aborted e s
      \<and> runPredefinedAgent e task (s\<lparr>iterations := iterations s + 1\<rparr>) = (r, s1)
      \<and> doneToolCalled r \<longrightarrow>
    checkIterationLimit msg (executePredefined_loop e task s)
      = (Inr (), publishMessage ''Predefined task completed successfully'' Assistant s1)
    \<and> iterations s1 = iterations s + 1)
   \<and> (iterations s < MAX_UNIFIED_ITERATIONS \<and> \<not> aborted e s
      \<and> runDynamicAgent e task (s\<lparr>iterations := iterations s + 1\<rparr>) = (r, s1)
      \<and> doneToolCalled r
      \<and> (requiresHumanInput r \<longrightarrow> fst (waitForHumanInput e s1) = HiDone) \<longrightarrow>
    (\<exists>s2. checkIterationLimit msg (executeDynamic_loop e task s)
             = (Inr (), publishMessage ''Task completed successfully'' Assistant s2)
         \<and> iterations s2 = iterations s + 1
         \<and> llmInvocations s2 = llmInvocations s1
         \<and> toolInvocations s2 = toolInvocations s1))"
proof (intro conjI impI)
  assume a: "iterations s < MAX_UNIFIED_ITERATIONS \<and> \<not> aborted e s
      \<and> runPredefinedAgent e task (s\<lparr>iterations := iterations s + 1\<rparr>) = (r, s1)
      \<and> doneToolCalled r"
  then have "executePredefined_loop e task s
      = (Inr True, publishMessage ''Predefined task completed successfully'' Assistant s1)"
    by (subst executePredefined_loop.simps) (simp add: checkIfAborted_def)
  then show "checkIterationLimit msg (executePredefined_loop e task s)
      = (Inr (), publishMessage ''Predefined task completed successfully'' Assistant s1)"
    by (simp add: checkIterationLimit_def)
  show "iterations s1 = iterations s + 1"
    using a runAgent_iterations [of e Predefined task "s\<lparr>iterations := iterations s + 1\<rparr>" r s1]
    by (simp add: runPredefinedAgent_def)
next
  assume a: "iterations s < MAX_UNIFIED_ITERATIONS \<and> \<not> aborted e s
      \<and> runDynamicAgent e task (s\<lparr>iterations := iterations s + 1\<rparr>) = (r, s1)
      \<and> doneToolCalled r
      \<and> (requiresHumanInput r \<longrightarrow> fst (waitForHumanInput e s1) = HiDone)"
  have i1: "iterations s1 = iterations s + 1"
    using a runAgent_iterations [of e Dynamic task "s\<lparr>iterations := iterations s + 1\<rparr>" r s1]
    by (simp add: runDynamicAgent_def)
  obtain s2 where h: "(if requiresHumanInput r then handleHumanInput e s1 else (None, s1)) = (None, s2)"
    using a handleHumanInput_continues [of e s1] by (cases "requiresHumanInput r") auto
  have f: "iterations s2 = iterations s1 \<and> llmInvocations s2 = llmInvocations s1
      \<and> toolInvocations s2 = toolInvocations s1"
    using h handleHumanInput_frame [of e s1 None s2] by (auto split: if_splits)
  have "executeDynamic_loop e task s
      = (Inr True, publishMessage ''Task completed successfully'' Assistant s2)"
    using a h by (subst executeDynamic_loop.simps) (simp add: checkIfAborted_def)
  then show "\<exists>s2. checkIterationLimit msg (executeDynamic_loop e task s)
             = (Inr (), publishMessage ''Task completed successfully'' Assistant s2)
         \<and> iterations s2 = iterations s + 1
         \<and> llmInvocations s2 = llmInvocations s1
         \<and> toolInvocations s2 = toolInvocations s1"
    using f i1 by (auto simp: checkIterationLimit_def)
qed

subsection \<open>Cancellation\<close>

lemma invocations_before_abort_cong:
  "toolInvocations s' = toolInvocations s \<Longrightarrow>
     invocations_before_abort e s' = invocations_before_abort e s"
  by (simp add: invocations_before_abort_def)

lemma aborted_emitDevModeDebug [simp]: "aborted e (emitDevModeDebug e' a d s) = aborted e s"
  by (simp add: aborted_def split: option.splits)

lemma dispatch_inv:
  assumes "invocations_before_abort e s"
    and "case abortAt e of None \<Rightarrow> True | Some ta \<Rightarrow> tick s \<le> ta"
    and "dispatch e n a s = (tr, s')"
  shows "invocations_before_abort e s'"
  using assms
  by (auto simp: dispatch_def invocations_before_abort_def emitDevModeDebug_def
      publishMessage_def publish_def Let_def
      split: option.splits tool_outcome.splits)

lemma processToolCalls_loop_inv:
  assumes "invocations_before_abort e s" and "processToolCalls_loop e calls r s = (res, s')"
  shows "invocations_before_abort e s'"
  using assms
proof (induction calls arbitrary: r s)
  case Nil
  then show ?case by simp
next
  case (Cons c calls)
  show ?case
  proof (cases "aborted e s")
    case True
    then show ?thesis
      using Cons.prems by (simp add: checkIfAborted_def)
  next
    case False
    let ?s1 = "maybeStartGlowAnimation (name c)
                 (emitDevModeDebug e (''Calling tool '' @ name c @ '' with args'')
                    (JSON_stringify (call_args c)) s)"
    obtain tr s2 where d: "dispatch e (name c) (call_args c) ?s1 = (tr, s2)"
      by force
    have g: "tick ?s1 \<le> tick s + 1"
      by (simp add: maybeStartGlowAnimation_def)
    have "invocations_before_abort e ?s1"
      using Cons.prems(1) by (simp add: invocations_before_abort_def)
    moreover have "case abortAt e of None \<Rightarrow> True | Some ta \<Rightarrow> tick ?s1 \<le> ta"
      using False g by (auto simp: aborted_def split: option.splits)
    ultimately have "invocations_before_abort e s2"
      using d by (rule dispatch_inv)
    then have "invocations_before_abort e (s2\<lparr>executionHistory :=
        executionHistory s2 @ [record_call e c tr s2]\<rparr>)"
      by (simp add: invocations_before_abort_def)
    moreover have "processToolCalls_loop e calls (update_flags e c tr r)
        (s2\<lparr>executionHistory := executionHistory s2 @ [record_call e c tr s2]\<rparr>) = (res, s')"
      using Cons.prems(2) False d by (simp add: checkIfAborted_def)
    ultimately show ?thesis
      by (rule Cons.IH)
  qed
qed

lemma runAgent_inv:
  assumes "invocations_before_abort e s" and "runAgent e m task s = (r, s')"
  shows "invocations_before_abort e s'"
proof -
  obtain c s1 where b: "buildExecutionHistoryContext e (historyTokenLimit e m) task
      (s\<lparr>observations := observations s + 1\<rparr>) = (c, s1)"
    by force
  have i1: "invocations_before_abort e s1"
    using build_frame(2) [OF b] assms(1) by (simp add: invocations_before_abort_def)
  obtain r2 s2 where v: "invokeLLMWithStreaming e [] s1 = (r2, s2)"
    by force
  have i2: "invocations_before_abort e s2"
    using invoke_frame [OF v] i1 by (simp add: invocations_before_abort_def)
  obtain r3 s3 where t: "runAgent_try e m task s = (r3, s3)"
    by force
  have "invocations_before_abort e s3"
  proof (cases r2)
    case (Inl err)
    then show ?thesis
      using b v t i2 by (auto simp: runAgent_try_def)
  next
    case (Inr mq)
    obtain msg q where mq: "mq = (msg, q)"
      by force
    show ?thesis
    proof (cases "tool_calls msg \<noteq> []")
      case True
      then have "processToolCalls_loop e (tool_calls msg)
          \<lparr>doneToolCalled = False, requiresHumanInput = False\<rparr>
          (s2\<lparr>consecutiveNoToolCalls := 0\<rparr>) = (r3, s3)"
        using b v t Inr mq by (simp add: runAgent_try_def processToolCalls_def)
      moreover have "invocations_before_abort e (s2\<lparr>consecutiveNoToolCalls := 0\<rparr>)"
        using i2 by (simp add: invocations_before_abort_def)
      ultimately show ?thesis
        using processToolCalls_loop_inv by blast
    next
      case False
      then show ?thesis
        using b v t Inr mq i2
        by (auto simp: runAgent_try_def Let_def invocations_before_abort_def split: if_splits)
    qed
  qed
  then show ?thesis
    using assms(2) t by (cases r3) (auto simp: runAgent_def invocations_before_abort_def)
qed

lemma human_block_inv:
  assumes "invocations_before_abort e s"
    and "(if requiresHumanInput r then handleHumanInput e s else (None, s)) = (thrown, s')"
  shows "invocations_before_abort e s'"
  using assms handleHumanInput_frame [of e s thrown s']
  by (auto simp: invocations_before_abort_def split: if_splits)

lemma executeDynamic_loop_inv:
  assumes "invocations_before_abort e s" and "executeDynamic_loop e task s = (res, s')"
  shows "invocations_before_abort e s'"
  using assms
proof (induction e task s rule: executeDynamic_loop.induct)
  case (1 e task s)
  show ?case
  proof (cases "iterations s < MAX_UNIFIED_ITERATIONS \<and> \<not> aborted e s")
    case False
    then show ?thesis
      using "1.prems"
      by (subst (asm) executeDynamic_loop.simps) (auto simp: checkIfAborted_def split: if_splits)
  next
    case True
    obtain r s1 where run: "runDynamicAgent e task (s\<lparr>iterations := iterations s + 1\<rparr>) = (r, s1)"
      by force
    obtain thrown s2 where hb:
      "(if requiresHumanInput r then handleHumanInput e s1 else (None, s1)) = (thrown, s2)"
      by force
    have "invocations_before_abort e (s\<lparr>iterations := iterations s + 1\<rparr>)"
      using "1.prems"(1) by (simp add: invocations_before_abort_def)
    then have i1: "invocations_before_abort e s1"
      using runAgent_inv [OF _ run [unfolded runDynamicAgent_def]] by simp
    have i2: "invocations_before_abort e s2"
      using human_block_inv [OF i1 hb] .
    show ?thesis
    proof (cases "thrown = None \<and> \<not> doneToolCalled r")
      case False
      then show ?thesis
        using "1.prems"(2) True run hb i2
        by (subst (asm) executeDynamic_loop.simps)
           (auto simp: checkIfAborted_def invocations_before_abort_def publishMessage_def
             publish_def split: option.splits)
    next
      case c: True
      then have "executeDynamic_loop e task s2 = (res, s')"
        using "1.prems"(2) True run hb
        by (subst (asm) executeDynamic_loop.simps) (simp add: checkIfAborted_def)
      from "1.IH" [OF _ _ run [symmetric] refl hb [symmetric] refl _ _ i2 this] True c
      show ?thesis
        by (simp add: checkIfAborted_def)
    qed
  qed
qed


lemma executePredefined_loop_inv:
  assumes "invocations_before_abort e s" and "executePredefined_loop e task s = (res, s')"
  shows "invocations_before_abort e s'"
  using assms
proof (induction e task s rule: executePredefined_loop.induct)
  case (1 e task s)
  show ?case
  proof (cases "iterations s < MAX_UNIFIED_ITERATIONS \<and> \<not> aborted e s")
    case False
    then show ?thesis
      using "1.prems"
      by (subst (asm) executePredefined_loop.simps)
         (auto simp: checkIfAborted_def split: if_splits)
  next
    case True
    obtain r s1 where run: "runPredefinedAgent e task (s\<lparr>iterations := iterations s + 1\<rparr>) = (r, s1)"
      by force
    obtain thrown s2 where hb:
      "(if requiresHumanInput r then handleHumanInput e s1 else (None, s1)) = (thrown, s2)"
      by force
    have "invocations_before_abort e (s\<lparr>iterations := iterations s + 1\<rparr>)"
      using "1.prems"(1) by (simp add: invocations_before_abort_def)
    then have i1: "invocations_before_abort e s1"
      using runAgent_inv [OF _ run [unfolded runPredefinedAgent_def]] by simp
    have i2: "invocations_before_abort e s2"
      using human_block_inv [OF i1 hb] .
    show ?thesis
    proof (cases "thrown = None \<and> \<not> doneToolCalled r")
      case False
      then show ?thesis
        using "1.prems"(2) True run hb i1 i2
        by (subst (asm) executePredefined_loop.simps)
           (auto simp: checkIfAborted_def invocations_before_abort_def publishMessage_def
             publish_def split: option.splits if_splits)
    next
      case c: True
      then have "executePredefined_loop e task s2 = (res, s')"
        using "1.prems"(2) True run hb
        by (subst (asm) executePredefined_loop.simps) (simp add: checkIfAborted_def)
      from "1.IH" [OF _ _ run [symmetric] refl _ hb [symmetric] refl _ i2 this] True c
      show ?thesis
        by (simp add: checkIfAborted_def)
    qed
  qed
qed

lemma checkIterationLimit_inv:
  assumes "invocations_before_abort e (snd p)"
  shows "invocations_before_abort e (snd (checkIterationLimit msg p))"
  using assms
  by (auto simp: checkIterationLimit_def invocations_before_abort_def publishMessage_def
      publish_def split: prod.splits sum.splits)

lemma execute_inv:
  assumes "invocations_before_abort e s"
  shows "invocations_before_abort e (snd (execute e m task planName s))"
proof -
  have r: "invocations_before_abort e (publishMessage c ty (reset s))" for c ty
    using assms by (simp add: invocations_before_abort_def reset_def publishMessage_def publish_def)
  have d: "invocations_before_abort e (snd (executeDynamic e task (reset s)))"
    unfolding executeDynamic_def
    by (rule checkIterationLimit_inv) (metis executeDynamic_loop_inv r prod.collapse)
  have p: "invocations_before_abort e (snd (executePredefined e task planName (reset s)))"
    unfolding executePredefined_def
    by (rule checkIterationLimit_inv) (metis executePredefined_loop_inv r prod.collapse)
  have h: "invocations_before_abort e x \<Longrightarrow>
      invocations_before_abort e
        (reset (case res of Inl err \<Rightarrow> handleExecutionError err x | Inr u \<Rightarrow> x))" for x res
    by (auto simp: invocations_before_abort_def reset_def handleExecutionError_def
        publishMessage_def publish_def split: sum.splits error.splits)
  show ?thesis
    using d p h by (cases m) (auto simp: execute_def split: prod.splits)
qed

text \<open>
  What the checks give: a batch reached with the signal set throws \<^verbatim>\<open>AbortError\<close> before
  its first dispatch, and so does either loop at the top of an iteration, leaving the
  state as it is; \<open>handleExecutionError\<close> publishes nothing for an \<^verbatim>\<open>AbortError\<close>.
\<close>

lemma cancellation_at_check_points:
  "(aborted e s \<longrightarrow> processToolCalls e (c # cs) s = (Inl (AbortError None), s))
   \<and> (aborted e s \<and> iterations s < MAX_UNIFIED_ITERATIONS \<longrightarrow>
        executeDynamic_loop e task s = (Inl (AbortError None), s)
        \<and> executePredefined_loop e task s = (Inl (AbortError None), s))
   \<and> handleExecutionError (AbortError x) s = s"
proof (intro conjI impI)
  assume "aborted e s"
  then show "processToolCalls e (c # cs) s = (Inl (AbortError None), s)"
    by (simp add: processToolCalls_def checkIfAborted_def)
next
  assume a: "aborted e s \<and> iterations s < MAX_UNIFIED_ITERATIONS"
  then show "executeDynamic_loop e task s = (Inl (AbortError None), s)"
    by (subst executeDynamic_loop.simps) (simp add: checkIfAborted_def)
  from a show "executePredefined_loop e task s = (Inl (AbortError None), s)"
    by (subst executePredefined_loop.simps) (simp add: checkIfAborted_def)
next
  show "handleExecutionError (AbortError x) s = s"
    by (simp add: handleExecutionError_def)
qed

subsection \<open>Runs in the example worlds\<close>

lemmas run_eval = executeDynamic_def checkIterationLimit_def runDynamicAgent_def runPredefinedAgent_def
  runAgent_def runAgent_try_def
  buildExecutionHistoryContext_def processToolCalls_def dispatch_def record_call_def
  update_flags_def emitDevModeDebug_def publishMessage_def handleHumanInput_def
  maybeStartGlowAnimation_def GLOW_ENABLED_TOOLS_def
  waitForHumanInput_def deliver_def outcome_of_action_def
  MAX_UNIFIED_ITERATIONS_def MAX_RETRIES_def HUMAN_INPUT_TIMEOUT_def HUMAN_INPUT_CHECK_INTERVAL_def
  stream_eval


lemmas demo_eval = demo_env_def fresh_state_def calls_chunk_def call_def ok_handler_def

lemma human_done_iteration:
  "runAgent human_done_env m ''open the page'' (fresh_state\<lparr>iterations := iterations fresh_state + 1\<rparr>)
     = (\<lparr>doneToolCalled = True, requiresHumanInput = True\<rparr>, after_human_and_done)"
  by (simp add: run_eval human_done_env_def human_abort_env_def demo_eval after_human_and_done_def)

lemma human_done_wait: "fst (waitForHumanInput human_done_env after_human_and_done) = HiDone"
  by (simp add: run_eval waitForHumanInput_loop.simps human_done_env_def human_abort_env_def
      demo_eval after_human_and_done_def)

text \<open>A batch of \<^verbatim>\<open>human_input\<close> and \<^verbatim>\<open>done\<close> whose human answers done: both modes complete.\<close>

lemma done_ends_the_loop_example:
  "iterations fresh_state < MAX_UNIFIED_ITERATIONS \<and> \<not> aborted human_done_env fresh_state
   \<and> runPredefinedAgent human_done_env ''open the page''
        (fresh_state\<lparr>iterations := iterations fresh_state + 1\<rparr>)
       = (\<lparr>doneToolCalled = True, requiresHumanInput = True\<rparr>, after_human_and_done)
   \<and> runDynamicAgent human_done_env ''open the page''
        (fresh_state\<lparr>iterations := iterations fresh_state + 1\<rparr>)
       = (\<lparr>doneToolCalled = True, requiresHumanInput = True\<rparr>, after_human_and_done)
   \<and> fst (waitForHumanInput human_done_env after_human_and_done) = HiDone
   \<and> checkIterationLimit ''limit'' (executePredefined_loop human_done_env ''open the page'' fresh_state)
       = (Inr (), publishMessage ''Predefined task completed successfully'' Assistant
                    after_human_and_done)
   \<and> (\<exists>s2. checkIterationLimit ''limit'' (executeDynamic_loop human_done_env ''open the page'' fresh_state)
             = (Inr (), publishMessage ''Task completed successfully'' Assistant s2)
         \<and> iterations s2 = iterations fresh_state + 1
         \<and> llmInvocations s2 = llmInvocations after_human_and_done
         \<and> toolInvocations s2 = toolInvocations after_human_and_done)"
proof -
  have h1: "iterations fresh_state < MAX_UNIFIED_ITERATIONS"
    by (simp add: fresh_state_def MAX_UNIFIED_ITERATIONS_def)
  have h2: "\<not> aborted human_done_env fresh_state"
    by (simp add: aborted_def human_done_env_def human_abort_env_def demo_env_def)
  have h3: "runPredefinedAgent human_done_env ''open the page''
        (fresh_state\<lparr>iterations := iterations fresh_state + 1\<rparr>)
       = (\<lparr>doneToolCalled = True, requiresHumanInput = True\<rparr>, after_human_and_done)"
    unfolding runPredefinedAgent_def by (rule human_done_iteration)
  have h4: "runDynamicAgent human_done_env ''open the page''
        (fresh_state\<lparr>iterations := iterations fresh_state + 1\<rparr>)
       = (\<lparr>doneToolCalled = True, requiresHumanInput = True\<rparr>, after_human_and_done)"
    unfolding runDynamicAgent_def by (rule human_done_iteration)
  have h5: "fst (waitForHumanInput human_done_env after_human_and_done) = HiDone"
    by (rule human_done_wait)
  show ?thesis
    using h1 h2 h3 h4 h5
      done_ends_the_loop [of fresh_state human_done_env "''open the page''"
        "\<lparr>doneToolCalled = True, requiresHumanInput = True\<rparr>" after_human_and_done "''limit''"]
    by simp
qed

text \<open>
  Claim C5 (the code differs). The model answers iteration 1 with the batch
  \<^verbatim>\<open>human_input\<close>, \<^verbatim>\<open>done\<close>; both handlers succeed, so the iteration returns with
  \<open>doneToolCalled\<close> and \<open>requiresHumanInput\<close>, and the human answers abort. The loop
  of \<^verbatim>\<open>_executeDynamic\<close> runs the human-input block before its done test and throws
  \<^verbatim>\<open>AbortError\<close>: no completion is reported. The loop of \<^verbatim>\<open>_executePredefined\<close>, which
  tests done first, completes on the same batch.
\<close>

theorem done_with_human_abort_ends_aborted:
  "runDynamicAgent human_abort_env ''open the page'' (fresh_state\<lparr>iterations := 1\<rparr>)
     = (\<lparr>doneToolCalled = True, requiresHumanInput = True\<rparr>, after_human_and_done)
   \<and> fst (executeDynamic human_abort_env ''open the page'' fresh_state)
       = Inl (AbortError (Some ''Task aborted by human''))
   \<and> published (snd (executeDynamic human_abort_env ''open the page'' fresh_state))
       = [Message None ''Starting unified task execution...'' Thinking,
          Message None ([CHR 0xE2, CHR 0x9D, CHR 0x8C] @ '' Task aborted by human'') Assistant]
   \<and> runPredefinedAgent human_abort_env ''open the page'' (fresh_state\<lparr>iterations := 1\<rparr>)
     = (\<lparr>doneToolCalled = True, requiresHumanInput = True\<rparr>, after_human_and_done)
   \<and> fst (executePredefined human_abort_env ''open the page'' ''plan'' fresh_state) = Inr ()
   \<and> published (snd (executePredefined human_abort_env ''open the page'' ''plan'' fresh_state))
       = [Message None ''Starting predefined task: plan'' Thinking,
          Message None ''Predefined task completed successfully'' Assistant]"
  by (simp add: run_eval executePredefined_def executeDynamic_loop.simps
      executePredefined_loop.simps waitForHumanInput_loop.simps
      human_abort_env_def demo_eval after_human_and_done_def MSG_ABORTED_def)

text \<open>
  Claim C3 (the code differs). With no response the wait ends in \<^verbatim>\<open>'timeout'\<close> after
  publishing the timeout message, but the loop tests for \<^verbatim>\<open>'abort'\<close> only: it announces
  that the human completed the action and goes on to iteration 2, where the model is
  invoked again and the run completes.
\<close>

theorem human_input_timeout_resumes:
  "fst (executeDynamic timeout_env ''open the page'' fresh_state) = Inr ()
   \<and> published (snd (executeDynamic timeout_env ''open the page'' fresh_state))
       = [Message None ''Starting unified task execution...'' Thinking,
          Message None MSG_TIMEOUT ErrorMessage,
          Message None MSG_CONTINUING Thinking,
          Message None ''Task completed successfully'' Assistant]
   \<and> iterations (snd (executeDynamic timeout_env ''open the page'' fresh_state)) = 2
   \<and> llmInvocations (snd (executeDynamic timeout_env ''open the page'' fresh_state)) = 2"
  by (simp add: run_eval executeDynamic_loop.simps waitForHumanInput_loop.simps
      timeout_env_def demo_eval historyTokenLimit_def render_history_def render_entry_def
      render_call_def number_text)

text \<open>
  No check follows the last dispatch of a batch: when the signal is set while the
  \<^verbatim>\<open>done\<close> handler runs, the run completes. And the wait for the glow animation lies
  between the check and the dispatch: a signal set during it is seen by the next check
  only, after the handler has run.
\<close>

lemma completion_after_late_cancellation:
  "aborted cancel_late_env (snd (executeDynamic cancel_late_env ''open the page'' fresh_state))
   \<and> fst (executeDynamic cancel_late_env ''open the page'' fresh_state) = Inr ()"
  by (simp add: run_eval executeDynamic_loop.simps cancel_late_env_def done_env_def demo_eval)

lemma handler_starts_after_cancellation:
  "toolInvocations (snd (processToolCalls (demo_env\<lparr>abortAt := Some 1\<rparr>) [call ''click''] fresh_state))
     = [(1, ''click'', JObj [])]
   \<and> fst (processToolCalls (demo_env\<lparr>abortAt := Some 1\<rparr>) [call ''click''] fresh_state)
     = Inr \<lparr>doneToolCalled = False, requiresHumanInput = False\<rparr>"
  by (simp add: batch_eval)

subsection \<open>Model failures, a refused done, cancellation inside an iteration\<close>



text \<open>
  Claim C8, as amended. A failure of the main model invocation is not retried inside the
  iteration: the iteration ends with both flags unset, one more model invocation and at
  least one more error counted, and the counter of empty turns as it was; the loop then
  starts the next iteration, which invokes the model again. A run whose model fails at
  every invocation (and is not cancelled) makes 30 invocations and fails with the
  iteration-limit error.
\<close>

theorem model_failure_not_retried:
  "(llm_stream e (llmInvocations s) = StreamFails cs err \<longrightarrow>
      (\<exists>s'. runDynamicAgent e task s
                = (\<lparr>doneToolCalled = False, requiresHumanInput = False\<rparr>, s')
           \<and> llmInvocations s' = llmInvocations s + 1
           \<and> consecutiveNoToolCalls s' = consecutiveNoToolCalls s
           \<and> errors s < errors s'))
   \<and> ((\<forall>n. \<exists>cs err. llm_stream e n = StreamFails cs err) \<and> abortAt e = None
        \<and> iterations s0 = 0 \<longrightarrow>
      (\<exists>s'. executeDynamic e task s0 = (Inl MAX_ITERATIONS_ERROR, s')
           \<and> llmInvocations s' = llmInvocations s0 + 30
           \<and> errors s0 + 30 \<le> errors s'))"
proof (intro conjI impI)
  assume "llm_stream e (llmInvocations s) = StreamFails cs err"
  from runAgent_model_throws [OF this, of Dynamic task]
  show "\<exists>s'. runDynamicAgent e task s
                = (\<lparr>doneToolCalled = False, requiresHumanInput = False\<rparr>, s')
           \<and> llmInvocations s' = llmInvocations s + 1
           \<and> consecutiveNoToolCalls s' = consecutiveNoToolCalls s
           \<and> errors s < errors s'"
    by (auto simp: runDynamicAgent_def)
next
  assume "(\<forall>n. \<exists>cs err. llm_stream e n = StreamFails cs err) \<and> abortAt e = None
        \<and> iterations s0 = 0"
  then show "\<exists>s'. executeDynamic e task s0 = (Inl MAX_ITERATIONS_ERROR, s')
           \<and> llmInvocations s' = llmInvocations s0 + 30
           \<and> errors s0 + 30 \<le> errors s'"
    using model_failures_run_to_cap [of e s0 task] by blast
qed

theorem model_failure_not_retried_witness:
  "llm_stream failing_model_env = (\<lambda>n. StreamFails [] (Error ''503 Service Unavailable''))
   \<and> abortAt failing_model_env = None \<and> iterations fresh_state = 0
   \<and> (\<exists>s'. runDynamicAgent failing_model_env ''open the page'' fresh_state
                = (\<lparr>doneToolCalled = False, requiresHumanInput = False\<rparr>, s')
           \<and> llmInvocations s' = llmInvocations fresh_state + 1
           \<and> consecutiveNoToolCalls s' = consecutiveNoToolCalls fresh_state
           \<and> errors fresh_state < errors s')
   \<and> (\<exists>s'. executeDynamic failing_model_env ''open the page'' fresh_state
                = (Inl MAX_ITERATIONS_ERROR, s')
           \<and> llmInvocations s' = llmInvocations fresh_state + 30
           \<and> errors fresh_state + 30 \<le> errors s')"
proof -
  have h1: "llm_stream failing_model_env = (\<lambda>n. StreamFails [] (Error ''503 Service Unavailable''))"
    by (simp add: failing_model_env_def)
  have h2: "abortAt failing_model_env = None"
    by (simp add: failing_model_env_def demo_env_def)
  have h3: "iterations fresh_state = 0"
    by (simp add: fresh_state_def)
  show ?thesis
    using h1 h2 h3
      model_failure_not_retried [of failing_model_env fresh_state "[]"
        "Error ''503 Service Unavailable''" "''open the page''" fresh_state]
    by simp
qed

text \<open>
  Claim C8 as stated fails: a model that always fails is invoked 30 times, not 3, and
  what surfaces is the iteration limit.
\<close>

theorem model_failure_thirty_invocations_counterexample:
  "fst (executeDynamic failing_model_env ''open the page'' fresh_state)
     = Inl (Error ''Maximum unified iterations (30) reached'')
   \<and> llmInvocations (snd (executeDynamic failing_model_env ''open the page'' fresh_state)) = 30"
proof -
  have "\<forall>n. \<exists>cs err. llm_stream failing_model_env n = StreamFails cs err"
    by (simp add: failing_model_env_def)
  moreover have "abortAt failing_model_env = None"
    by (simp add: failing_model_env_def demo_env_def)
  moreover have "iterations fresh_state = 0"
    by (simp add: fresh_state_def)
  ultimately obtain s' where
    "executeDynamic failing_model_env ''open the page'' fresh_state = (Inl MAX_ITERATIONS_ERROR, s')"
    "llmInvocations s' = llmInvocations fresh_state + 30"
    using model_failures_run_to_cap [of failing_model_env fresh_state "''open the page''"] by blast
  then show ?thesis
    by (simp add: MAX_ITERATIONS_ERROR_text fresh_state_def)
qed

lemma refused_done_batch:
  "processToolCalls refused_done_env [call ''done''] (fresh_state\<lparr>iterations := 1, observations := 1, llmInvocations := 1,
         llmReminders := [[]], tick := 1\<rparr>)
     = (Inr \<lparr>doneToolCalled = False, requiresHumanInput = False\<rparr>, after_refused_done)"
  by (simp add: run_eval refused_done_env_def done_env_def demo_eval after_refused_done_def)

lemma refused_done_iteration:
  "runDynamicAgent refused_done_env ''open the page''
      (fresh_state\<lparr>iterations := iterations fresh_state + 1\<rparr>)
     = (\<lparr>doneToolCalled = False, requiresHumanInput = False\<rparr>, after_refused_done)"
  by (simp add: run_eval refused_done_env_def done_env_def demo_eval after_refused_done_def)

text \<open>Claim C10, at a \<^verbatim>\<open>done\<close> call whose tool answers \<^verbatim>\<open>ok: false\<close>.\<close>

theorem done_and_human_input_flags_witness:
  "processToolCalls refused_done_env [call ''done'']
      (fresh_state\<lparr>iterations := 1, observations := 1, llmInvocations := 1,
         llmReminders := [[]], tick := 1\<rparr>)
     = (Inr \<lparr>doneToolCalled = False, requiresHumanInput = False\<rparr>, after_refused_done)
   \<and> iterations fresh_state < MAX_UNIFIED_ITERATIONS \<and> \<not> aborted refused_done_env fresh_state
   \<and> runDynamicAgent refused_done_env ''open the page''
        (fresh_state\<lparr>iterations := iterations fresh_state + 1\<rparr>)
       = (\<lparr>doneToolCalled = False, requiresHumanInput = False\<rparr>, after_refused_done)
   \<and> executeDynamic_loop refused_done_env ''open the page'' fresh_state
       = executeDynamic_loop refused_done_env ''open the page'' after_refused_done"
proof -
  have h2: "iterations fresh_state < MAX_UNIFIED_ITERATIONS"
    by (simp add: fresh_state_def MAX_UNIFIED_ITERATIONS_def)
  have h3: "\<not> aborted refused_done_env fresh_state"
    by (simp add: aborted_def refused_done_env_def done_env_def demo_env_def)
  show ?thesis
    using refused_done_batch h2 h3 refused_done_iteration
      done_and_human_input_flags [of refused_done_env "[call ''done'']"
        "fresh_state\<lparr>iterations := 1, observations := 1, llmInvocations := 1,
         llmReminders := [[]], tick := 1\<rparr>"
        "\<lparr>doneToolCalled = False, requiresHumanInput = False\<rparr>" after_refused_done
        fresh_state "''open the page''" "\<lparr>doneToolCalled = False, requiresHumanInput = False\<rparr>"
        after_refused_done]
    by simp
qed

text \<open>With no response and no cancellation the wait ends in a timeout, whatever the
  sleeps took.\<close>

lemma wait_loop_times_out:
  assumes "abortAt e = None" and "\<forall>t. humanInputEvents e t = []" and "humanInputResponse s = None"
  shows "fst (waitForHumanInput_loop e rid el s) = HiTimeout"
  using assms
proof (induction e rid el s rule: waitForHumanInput_loop.induct)
  case (1 e rid elapsed s)
  have na: "\<not> aborted e s"
    using "1.prems"(1) by (simp add: aborted_def)
  show ?case
  proof (cases "elapsed > HUMAN_INPUT_TIMEOUT")
    case True
    then show ?thesis
      using na "1.prems"(3) by (subst waitForHumanInput_loop.simps) simp
  next
    case False
    have d: "humanInputResponse (deliver e rid (s\<lparr>tick := tick s + 1\<rparr>)) = None"
      using "1.prems"(2,3) by (simp add: deliver_def)
    have "fst (waitForHumanInput_loop e rid
        (elapsed + max HUMAN_INPUT_CHECK_INTERVAL (sleepDuration e (tick s)))
        (deliver e rid (s\<lparr>tick := tick s + 1\<rparr>))) = HiTimeout"
      using "1.IH" [OF na "1.prems"(3) False "1.prems"(1,2) d] .
    then show ?thesis
      using na "1.prems"(3) False by (subst waitForHumanInput_loop.simps) simp
  qed
qed

lemma timeout_is_not_abort:
  assumes "fst (waitForHumanInput e s) = HiTimeout"
  shows "fst (handleHumanInput e s) = None"
  using assms by (cases "waitForHumanInput e s") (simp add: handleHumanInput_def)

text \<open>The throw of the third empty turn never leaves the iteration.\<close>

lemma stall_error_is_swallowed:
  assumes "fst (runAgent_try e m task s) = Inl NO_TOOL_CALLS_ERROR"
  shows "fst (runAgent e m task s) = \<lparr>doneToolCalled = False, requiresHumanInput = False\<rparr>"
  using assms by (cases "runAgent_try e m task s") (simp add: runAgent_def)

text \<open>
  Claim C9 (the code differs). The \<^verbatim>\<open>AbortError\<close> that a cancellation check throws inside
  an iteration (before a chunk of the model's stream, before a dispatch) does not leave
  the iteration: the catch clause of \<^verbatim>\<open>_runDynamicAgent\<close> counts it as an error and
  returns a result with both flags unset. Before the last iteration the check at the top
  of the next one throws again and the run is cancelled, with that error counted. In
  the 30th iteration the loop ends on its bound instead, and the run fails with the
  iteration-limit error after publishing its error message: not the cancelled outcome.
\<close>

theorem cancellation_inside_iteration_is_swallowed:
  assumes "\<not> aborted e s"
    and "runAgent_try e Dynamic task (s\<lparr>iterations := iterations s + 1\<rparr>)
           = (Inl (AbortError x), s1)"
  shows "runDynamicAgent e task (s\<lparr>iterations := iterations s + 1\<rparr>)
           = (\<lparr>doneToolCalled = False, requiresHumanInput = False\<rparr>,
              s1\<lparr>errors := errors s1 + 1\<rparr>)
     \<and> (iterations s = MAX_UNIFIED_ITERATIONS - 1 \<longrightarrow>
          checkIterationLimit msg (executeDynamic_loop e task s)
            = (Inl MAX_ITERATIONS_ERROR,
               publishMessage msg ErrorMessage (s1\<lparr>errors := errors s1 + 1\<rparr>)))
     \<and> (iterations s < MAX_UNIFIED_ITERATIONS - 1 \<and> aborted e s1 \<longrightarrow>
          checkIterationLimit msg (executeDynamic_loop e task s)
            = (Inl (AbortError None), s1\<lparr>errors := errors s1 + 1\<rparr>))"
proof -
  let ?s2 = "s1\<lparr>errors := errors s1 + 1\<rparr>"
  have r: "runDynamicAgent e task (s\<lparr>iterations := iterations s + 1\<rparr>)
      = (\<lparr>doneToolCalled = False, requiresHumanInput = False\<rparr>, ?s2)"
    using assms(2) by (simp add: runDynamicAgent_def runAgent_def)
  have i: "iterations ?s2 = iterations s + 1"
    using runAgent_iterations [OF r [unfolded runDynamicAgent_def]] by simp
  have last: "checkIterationLimit msg (executeDynamic_loop e task s)
            = (Inl MAX_ITERATIONS_ERROR, publishMessage msg ErrorMessage ?s2)"
    if l: "iterations s = MAX_UNIFIED_ITERATIONS - 1"
  proof -
    have "executeDynamic_loop e task s = executeDynamic_loop e task ?s2"
      using l assms(1) r
      by (subst executeDynamic_loop.simps) (simp add: checkIfAborted_def)
    also have "\<dots> = (Inr False, ?s2)"
      using i l by (subst executeDynamic_loop.simps) simp
    finally show ?thesis
      using i l by (simp add: checkIterationLimit_def)
  qed
  have earlier: "checkIterationLimit msg (executeDynamic_loop e task s)
            = (Inl (AbortError None), ?s2)"
    if l: "iterations s < MAX_UNIFIED_ITERATIONS - 1" and a: "aborted e s1"
  proof -
    have a2: "aborted e ?s2"
      using a by (simp add: aborted_def split: option.splits)
    have "executeDynamic_loop e task s = executeDynamic_loop e task ?s2"
      using l assms(1) r
      by (subst executeDynamic_loop.simps) (simp add: checkIfAborted_def)
    also have "\<dots> = (Inl (AbortError None), ?s2)"
      using i l a2 by (subst executeDynamic_loop.simps) (simp add: checkIfAborted_def)
    finally show ?thesis
      by (simp add: checkIterationLimit_def)
  qed
  show ?thesis
    using r last earlier by blast
qed

lemma cancel_in_stream_iteration:
  "runAgent_try cancel_in_stream_env Dynamic ''open the page''
       (fresh_state\<lparr>iterations := i\<rparr>)
     = (Inl (AbortError None),
        fresh_state\<lparr>iterations := i, observations := 1, llmInvocations := 1,
          llmReminders := [[]], tick := 1\<rparr>)"
  by (simp add: run_eval cancel_in_stream_env_def demo_eval text_chunk_def)

text \<open>Claim C9, at a signal set while the model streams its first chunk of the
  iteration: in iteration 30, and in iteration 1.\<close>

theorem cancellation_inside_iteration_is_swallowed_witness:
  "\<not> aborted cancel_in_stream_env before_last_iteration
   \<and> runAgent_try cancel_in_stream_env Dynamic ''open the page''
        (before_last_iteration\<lparr>iterations := iterations before_last_iteration + 1\<rparr>)
       = (Inl (AbortError None),
          fresh_state\<lparr>iterations := 30, observations := 1, llmInvocations := 1,
         llmReminders := [[]], tick := 1\<rparr>)
   \<and> iterations before_last_iteration = MAX_UNIFIED_ITERATIONS - 1
   \<and> checkIterationLimit ''Task did not complete within 30 iterations''
        (executeDynamic_loop cancel_in_stream_env ''open the page'' before_last_iteration)
       = (Inl (Error ''Maximum unified iterations (30) reached''),
          fresh_state\<lparr>iterations := 30, observations := 1, llmInvocations := 1,
            llmReminders := [[]], tick := 1,
            errors := 1,
            published := [Message None ''Task did not complete within 30 iterations''
                            ErrorMessage]\<rparr>)
   \<and> \<not> aborted cancel_in_stream_env fresh_state
   \<and> iterations fresh_state < MAX_UNIFIED_ITERATIONS - 1
   \<and> aborted cancel_in_stream_env
        (fresh_state\<lparr>iterations := 1, observations := 1, llmInvocations := 1,
         llmReminders := [[]], tick := 1\<rparr>)
   \<and> checkIterationLimit ''Task did not complete within 30 iterations''
        (executeDynamic_loop cancel_in_stream_env ''open the page'' fresh_state)
       = (Inl (AbortError None),
          fresh_state\<lparr>iterations := 1, observations := 1, llmInvocations := 1,
            llmReminders := [[]], tick := 1,
            errors := 1\<rparr>)"
proof -
  let ?s1 = "fresh_state\<lparr>iterations := 30, observations := 1, llmInvocations := 1,
         llmReminders := [[]], tick := 1\<rparr>"
  let ?t1 = "fresh_state\<lparr>iterations := 1, observations := 1, llmInvocations := 1,
         llmReminders := [[]], tick := 1\<rparr>"
  have h1: "\<not> aborted cancel_in_stream_env before_last_iteration"
    by (simp add: aborted_def cancel_in_stream_env_def before_last_iteration_def fresh_state_def)
  have h2: "runAgent_try cancel_in_stream_env Dynamic ''open the page''
        (before_last_iteration\<lparr>iterations := iterations before_last_iteration + 1\<rparr>)
       = (Inl (AbortError None), ?s1)"
    using cancel_in_stream_iteration [of 30] by (simp add: before_last_iteration_def)
  have h3: "iterations before_last_iteration = MAX_UNIFIED_ITERATIONS - 1"
    by (simp add: before_last_iteration_def MAX_UNIFIED_ITERATIONS_def)
  have g1: "\<not> aborted cancel_in_stream_env fresh_state"
    by (simp add: aborted_def cancel_in_stream_env_def fresh_state_def)
  have g2: "runAgent_try cancel_in_stream_env Dynamic ''open the page''
        (fresh_state\<lparr>iterations := iterations fresh_state + 1\<rparr>)
       = (Inl (AbortError None), ?t1)"
    using cancel_in_stream_iteration [of 1] by (simp add: fresh_state_def)
  have g3: "iterations fresh_state < MAX_UNIFIED_ITERATIONS - 1"
    by (simp add: fresh_state_def MAX_UNIFIED_ITERATIONS_def)
  have g4: "aborted cancel_in_stream_env ?t1"
    by (simp add: aborted_def cancel_in_stream_env_def)
  have e1: "publishMessage ''Task did not complete within 30 iterations'' ErrorMessage
              (?s1\<lparr>errors := errors ?s1 + 1\<rparr>)
            = fresh_state\<lparr>iterations := 30, observations := 1, llmInvocations := 1,
            llmReminders := [[]], tick := 1,
                errors := 1,
                published := [Message None ''Task did not complete within 30 iterations''
                            ErrorMessage]\<rparr>"
    by (simp add: publishMessage_def publish_def fresh_state_def)
  have e2: "?t1\<lparr>errors := errors ?t1 + 1\<rparr>
            = fresh_state\<lparr>iterations := 1, observations := 1, llmInvocations := 1,
            llmReminders := [[]], tick := 1,
            errors := 1\<rparr>"
    by (simp add: fresh_state_def)
  show ?thesis
    using h1 h2 h3 g1 g3 g4
      cancellation_inside_iteration_is_swallowed [OF h1 h2, of "''Task did not complete within 30 iterations''"]
      cancellation_inside_iteration_is_swallowed [OF g1 g2, of "''Task did not complete within 30 iterations''"]
    unfolding e1 e2 MAX_ITERATIONS_ERROR_text
    by simp
qed

end
